theory Spec2Isabelle
  imports Main "HOL-Library.Word"
begin

unbundle bit_operations_syntax

section \<open>Package logs: the type Level\<close>

text \<open>
  \<^verbatim>\<open>type Level slog.Level\<close>, and \<^verbatim>\<open>slog.Level\<close> is Go's \<^verbatim>\<open>int\<close>. The model fixes the
  64-bit platforms, where \<^verbatim>\<open>int\<close> is a 64-bit two's complement integer: \<open>+\<close> and \<open>-\<close>
  wrap around, and the comparisons of the source are the signed ones (\<open><s\<close>).
  A Go \<^verbatim>\<open>string\<close> and a \<^verbatim>\<open>[]byte\<close> are sequences of bytes: \<open>string\<close>, a list of 8-bit
  characters.
\<close>

type_synonym Level = "64 word"

definition LevelTrace :: Level where
  "LevelTrace = - 8"

definition LevelDebug :: Level where
  \<comment> \<open>\<^verbatim>\<open>Level(slog.LevelDebug)\<close>\<close>
  "LevelDebug = - 4"

definition LevelInfo :: Level where
  \<comment> \<open>\<^verbatim>\<open>Level(slog.LevelInfo)\<close>\<close>
  "LevelInfo = 0"

definition LevelWarn :: Level where
  \<comment> \<open>\<^verbatim>\<open>Level(slog.LevelWarn)\<close>\<close>
  "LevelWarn = 4"

definition LevelError :: Level where
  \<comment> \<open>\<^verbatim>\<open>Level(slog.LevelError)\<close>\<close>
  "LevelError = 8"

subsection \<open>The verb \<^verbatim>\<open>%+d\<close> of package fmt\<close>

text \<open>
  \<^verbatim>\<open>fmt.Sprintf("%s%+d", base, val)\<close> copies \<^verbatim>\<open>base\<close> and formats \<^verbatim>\<open>val\<close> with
  \<^verbatim>\<open>fmtInteger\<close> in base 10 with the plus flag: the value is negated in \<^verbatim>\<open>uint64\<close> when it is
  negative, its digits are produced by repeated division by 10, and the sign is written in
  front, \<^verbatim>\<open>-\<close> for a negative value and \<^verbatim>\<open>+\<close> otherwise.
\<close>

definition digit_char :: "nat \<Rightarrow> char" where
  \<comment> \<open>\<^verbatim>\<open>byte('0' + d)\<close>\<close>
  "digit_char d = char_of (48 + d)"

function fmt_digits :: "nat \<Rightarrow> string" where
  "fmt_digits u =
     (if 10 \<le> u then fmt_digits (u div 10) @ [digit_char (u - (u div 10) * 10)]
      else [digit_char u])"
  by pat_completeness auto
termination
  by (relation "measure id") auto

declare fmt_digits.simps [simp del]

definition fmt_plus_d :: "Level \<Rightarrow> string" where
  "fmt_plus_d v =
     (let negative = v <s 0;
          u = (if negative then - v else v)
      in (if negative then CHR ''-'' else CHR ''+'') # fmt_digits (unat u))"

subsection \<open>Level.String\<close>

definition str :: "string \<Rightarrow> Level \<Rightarrow> string" where
  "str base val = (if val = 0 then base else base @ fmt_plus_d val)"

definition Level_String :: "Level \<Rightarrow> string" where
  "Level_String l =
     (if l <s LevelDebug then str ''TRACE'' (l - LevelTrace)
      else if l <s LevelInfo then str ''DEBUG'' (l - LevelDebug)
      else if l <s LevelWarn then str ''INFO'' (l - LevelInfo)
      else if l <s LevelError then str ''WARN'' (l - LevelWarn)
      else str ''ERROR'' (l - LevelError))"

section \<open>The standard library functions that the parser calls\<close>

abbreviation byte :: "char \<Rightarrow> nat" where
  "byte c \<equiv> of_char c"

subsection \<open>strings.IndexAny\<close>

text \<open>
  \<^verbatim>\<open>strings.IndexAny(s, chars)\<close> is the index of the first code point of \<^verbatim>\<open>s\<close> that occurs in
  \<^verbatim>\<open>chars\<close>, or \<open>-1\<close>. For a set \<^verbatim>\<open>chars\<close> of ASCII characters, as in the call
  \<^verbatim>\<open>IndexAny(s, "+-")\<close>, the library scans \<^verbatim>\<open>s\<close> byte by byte.
\<close>

fun IndexAny :: "string \<Rightarrow> string \<Rightarrow> int" where
  "IndexAny [] chars = - 1"
| "IndexAny (c # s) chars =
     (if c \<in> set chars then 0
      else (let i = IndexAny s chars in if i < 0 then - 1 else i + 1))"

subsection \<open>strconv.Atoi\<close>

text \<open>
  The two sentinel errors of package strconv, and the \<^verbatim>\<open>*strconv.NumError\<close> that carries one
  of them with the text that failed to convert (its field \<^verbatim>\<open>Func\<close> is always \<^verbatim>\<open>"Atoi"\<close> here).
\<close>

datatype num_err = ErrSyntax | ErrRange

datatype NumError = NumError (Num: string) (Err: num_err)

definition is_digit :: "char \<Rightarrow> bool" where
  \<comment> \<open>\<^verbatim>\<open>'0' <= c && c <= '9'\<close>\<close>
  "is_digit c \<longleftrightarrow> 48 \<le> byte c \<and> byte c \<le> 57"

text \<open>
  The fast path of \<^verbatim>\<open>Atoi\<close>, for at most 18 bytes: \<^verbatim>\<open>ch -= '0'\<close> wraps around in a byte, so
  that \<^verbatim>\<open>ch > 9\<close> holds for every byte that is not a digit; \<^verbatim>\<open>n = n*10 + int(ch)\<close> is
  arithmetic of \<^verbatim>\<open>int\<close>.
\<close>

fun atoi_loop :: "Level \<Rightarrow> string \<Rightarrow> Level option" where
  "atoi_loop n [] = Some n"
| "atoi_loop n (c # s) =
     (let ch = (byte c + 256 - 48) mod 256
      in if ch > 9 then None else atoi_loop (n * 10 + of_nat ch) s)"

text \<open>
  \<^verbatim>\<open>ParseUint(s, 10, 0)\<close>: base 10, so that an underscore and a letter are syntax errors, and
  64 bits. \<^verbatim>\<open>n\<close> is a \<^verbatim>\<open>uint64\<close>; the test \<^verbatim>\<open>n1 < n\<close> detects the wrap-around of the
  addition.
\<close>

definition cutoff10 :: "64 word" where
  \<comment> \<open>\<^verbatim>\<open>maxUint64/10 + 1\<close>\<close>
  "cutoff10 = 1844674407370955162"

definition maxVal :: "64 word" where
  \<comment> \<open>\<^verbatim>\<open>uint64(1)<<64 - 1\<close>\<close>
  "maxVal = - 1"

fun parseUint_loop :: "64 word \<Rightarrow> string \<Rightarrow> num_err + 64 word" where
  "parseUint_loop n [] = Inr n"
| "parseUint_loop n (c # s) =
     (if \<not> is_digit c then Inl ErrSyntax
      else
        (let d = byte c - 48 in
         if cutoff10 \<le> n then Inl ErrRange
         else
           (let n' = n * 10; n1 = n' + of_nat d in
            if n1 < n' \<or> maxVal < n1 then Inl ErrRange
            else parseUint_loop n1 s)))"

definition ParseUint :: "string \<Rightarrow> num_err + 64 word" where
  "ParseUint s = (if s = [] then Inl ErrSyntax else parseUint_loop 0 s)"

text \<open>
  \<^verbatim>\<open>ParseInt(s, 10, 0)\<close>. A range error of \<^verbatim>\<open>ParseUint\<close> comes with the value \<^verbatim>\<open>maxVal\<close>,
  which the bound checks below turn into a range error again; the cutoff is \<open>2 ^ 63\<close>.
\<close>

definition ParseInt :: "string \<Rightarrow> num_err + Level" where
  "ParseInt s =
     (case s of
        [] \<Rightarrow> Inl ErrSyntax
      | c # t \<Rightarrow>
          (let neg = (c = CHR ''-'');
               s' = (if c = CHR ''+'' \<or> c = CHR ''-'' then t else s);
               r = ParseUint s'
           in if r = Inl ErrSyntax then Inl ErrSyntax
              else
                (let un = (case r of Inl _ \<Rightarrow> maxVal | Inr n \<Rightarrow> n);
                     cutoff = (9223372036854775808 :: 64 word)
                 in if \<not> neg \<and> cutoff \<le> un then Inl ErrRange
                    else if neg \<and> cutoff < un then Inl ErrRange
                    else Inr (if neg then - un else un))))"

definition Atoi :: "string \<Rightarrow> NumError + Level" where
  "Atoi s =
     (let sLen = length s in
      if 0 < sLen \<and> sLen < 19 then
        (let signed = (hd s = CHR ''-'' \<or> hd s = CHR ''+'');
             s' = (if signed then tl s else s)
         in if signed \<and> length s' < 1 then Inl (NumError s ErrSyntax)
            else
              (case atoi_loop 0 s' of
                 None \<Rightarrow> Inl (NumError s ErrSyntax)
               | Some n \<Rightarrow> Inr (if hd s = CHR ''-'' then - n else n)))
      else
        (case ParseInt s of
           Inl e \<Rightarrow> Inl (NumError s e)
         | Inr i \<Rightarrow> Inr i))"

subsection \<open>Package unicode/utf8\<close>

text \<open>
  A \<^verbatim>\<open>rune\<close> is modelled as an \<open>int\<close>. The table \<^verbatim>\<open>first\<close> of the package classifies a
  leading byte: ASCII (\<^verbatim>\<open>as\<close>), invalid (\<^verbatim>\<open>xx\<close>), or the size of the encoding together with
  the range accepted for the second byte (\<^verbatim>\<open>acceptRanges\<close>).
\<close>

definition RuneSelf :: nat where
  "RuneSelf = 0x80"

definition RuneError :: int where
  "RuneError = 0xFFFD"

definition MaxRune :: int where
  "MaxRune = 0x10FFFF"

definition locb :: nat where
  "locb = 0x80"

definition hicb :: nat where
  "hicb = 0xBF"

datatype first_info = AS | XX | SZ nat nat nat

definition first :: "nat \<Rightarrow> first_info" where
  "first b =
     (if b < 0x80 then AS
      else if b < 0xC2 then XX
      else if b < 0xE0 then SZ 2 locb hicb
      else if b = 0xE0 then SZ 3 0xA0 hicb
      else if b < 0xED then SZ 3 locb hicb
      else if b = 0xED then SZ 3 locb 0x9F
      else if b < 0xF0 then SZ 3 locb hicb
      else if b = 0xF0 then SZ 4 0x90 hicb
      else if b < 0xF4 then SZ 4 locb hicb
      else if b = 0xF4 then SZ 4 locb 0x8F
      else XX)"

definition DecodeRuneInString :: "string \<Rightarrow> int \<times> nat" where
  "DecodeRuneInString s =
     (let n = length s in
      if n < 1 then (RuneError, 0)
      else
        (let s0 = byte (s ! 0) in
         case first s0 of
           AS \<Rightarrow> (int s0, 1)
         | XX \<Rightarrow> (RuneError, 1)
         | SZ sz lo hi \<Rightarrow>
             if n < sz then (RuneError, 1)
             else
               (let s1 = byte (s ! 1) in
                if s1 < lo \<or> hi < s1 then (RuneError, 1)
                else if sz \<le> 2 then
                  (push_bit 6 (int (s0 AND 0x1F)) OR int (s1 AND 0x3F), 2)
                else
                  (let s2 = byte (s ! 2) in
                   if s2 < locb \<or> hicb < s2 then (RuneError, 1)
                   else if sz \<le> 3 then
                     (push_bit 12 (int (s0 AND 0x0F)) OR push_bit 6 (int (s1 AND 0x3F))
                        OR int (s2 AND 0x3F), 3)
                   else
                     (let s3 = byte (s ! 3) in
                      if s3 < locb \<or> hicb < s3 then (RuneError, 1)
                      else
                        (push_bit 18 (int (s0 AND 0x07)) OR push_bit 12 (int (s1 AND 0x3F))
                           OR push_bit 6 (int (s2 AND 0x3F)) OR int (s3 AND 0x3F), 4))))))"

definition ValidRune :: "int \<Rightarrow> bool" where
  "ValidRune r \<longleftrightarrow> (0 \<le> r \<and> r < 0xD800) \<or> (0xDFFF < r \<and> r \<le> MaxRune)"

definition byte_of :: "int \<Rightarrow> char" where
  \<comment> \<open>the conversion \<^verbatim>\<open>byte(r)\<close>: the low 8 bits\<close>
  "byte_of r = char_of r"

definition EncodeRune3 :: "int \<Rightarrow> string" where
  "EncodeRune3 r =
     [byte_of (0xE0 OR drop_bit 12 r), byte_of (0x80 OR (drop_bit 6 r AND 0x3F)),
      byte_of (0x80 OR (r AND 0x3F))]"

definition AppendRune :: "string \<Rightarrow> int \<Rightarrow> string" where
  \<comment> \<open>a rune that is negative, above \<^verbatim>\<open>MaxRune\<close> or a surrogate is written as \<^verbatim>\<open>RuneError\<close>\<close>
  "AppendRune p r =
     (if 0 \<le> r \<and> r \<le> 0x7F then p @ [byte_of r]
      else if 0 \<le> r \<and> r \<le> 0x7FF then
        p @ [byte_of (0xC0 OR drop_bit 6 r), byte_of (0x80 OR (r AND 0x3F))]
      else if r < 0 \<or> MaxRune < r \<or> (0xD800 \<le> r \<and> r \<le> 0xDFFF) then
        p @ EncodeRune3 RuneError
      else if r \<le> 0xFFFF then p @ EncodeRune3 r
      else
        p @ [byte_of (0xF0 OR drop_bit 18 r), byte_of (0x80 OR (drop_bit 12 r AND 0x3F)),
             byte_of (0x80 OR (drop_bit 6 r AND 0x3F)), byte_of (0x80 OR (r AND 0x3F))])"

lemma DecodeRuneInString_width:
  "s \<noteq> [] \<Longrightarrow> 0 < snd (DecodeRuneInString s)"
  by (cases s) (simp_all add: DecodeRuneInString_def Let_def split: first_info.split)

lemma DecodeRuneInString_shorter:
  "s \<noteq> [] \<Longrightarrow> (c, w) = DecodeRuneInString s \<Longrightarrow> length s - w < length s"
  using DecodeRuneInString_width [of s] by (cases s) (auto dest: sym)

subsection \<open>strings.ToUpper\<close>

text \<open>
  The case tables of package unicode and the table of printable characters of package
  strconv are data of the Go distribution. They are parameters of the model: \<open>To_UpperCase\<close>
  stands for \<^verbatim>\<open>unicode.To(unicode.UpperCase, r)\<close>, which \<^verbatim>\<open>unicode.ToUpper\<close> consults for a
  rune above \<^verbatim>\<open>MaxASCII\<close>, and \<open>IsPrint_table\<close> for the table lookup of \<^verbatim>\<open>strconv.IsPrint\<close>
  for a rune above \<^verbatim>\<open>0xFF\<close>. Every theorem below holds for all tables.
\<close>

record unicode =
  To_UpperCase :: "int \<Rightarrow> int"
  IsPrint_table :: "int \<Rightarrow> bool"

definition unicode_ToUpper :: "unicode \<Rightarrow> int \<Rightarrow> int" where
  "unicode_ToUpper U r =
     (if r \<le> 0x7F then (if 97 \<le> r \<and> r \<le> 122 then r - (97 - 65) else r)
      else To_UpperCase U r)"

text \<open>
  \<^verbatim>\<open>strings.Map(mapping, s)\<close> ranges over the runes of \<^verbatim>\<open>s\<close> (a byte that starts no valid
  encoding is the rune \<^verbatim>\<open>RuneError\<close> of width 1), and writes the encoding of each mapped rune
  that is not negative. The library returns \<^verbatim>\<open>s\<close> itself while no rune has changed; the
  result is the same string of bytes.
\<close>

function strings_Map :: "(int \<Rightarrow> int) \<Rightarrow> string \<Rightarrow> string" where
  "strings_Map mapping s =
     (if s = [] then []
      else
        (let (c, width) = DecodeRuneInString s;
             r = mapping c
         in (if 0 \<le> r then AppendRune [] r else []) @ strings_Map mapping (drop width s)))"
  by pat_completeness auto
termination
  by (relation "measure (\<lambda>(m, s). length s)") (auto intro: DecodeRuneInString_shorter)

declare strings_Map.simps [simp del]

definition is_lower :: "char \<Rightarrow> bool" where
  \<comment> \<open>\<^verbatim>\<open>'a' <= c && c <= 'z'\<close>\<close>
  "is_lower c \<longleftrightarrow> 97 \<le> byte c \<and> byte c \<le> 122"

definition upper_byte :: "char \<Rightarrow> char" where
  \<comment> \<open>\<^verbatim>\<open>c -= 'a' - 'A'\<close> for a lower-case letter\<close>
  "upper_byte c = (if is_lower c then char_of (byte c - (97 - 65)) else c)"

definition ToUpper :: "unicode \<Rightarrow> string \<Rightarrow> string" where
  "ToUpper U s =
     (let isASCII = list_all (\<lambda>c. byte c < RuneSelf) s;
          hasLower = list_ex is_lower s
      in if isASCII then (if \<not> hasLower then s else map upper_byte s)
         else strings_Map (unicode_ToUpper U) s)"

section \<open>Level.parse and the unmarshalling functions\<close>

text \<open>
  The errors that the functions of \<^verbatim>\<open>level.go\<close> return:
  \<^item> \<open>ParseError s e\<close> is \<^verbatim>\<open>fmt.Errorf("logs: level string %q: %w", s, err)\<close> for the
    \<^verbatim>\<open>*strconv.NumError\<close> \<open>e\<close> of \<^verbatim>\<open>Atoi\<close>;
  \<^item> \<open>UnknownNameError name\<close> is \<^verbatim>\<open>fmt.Errorf("%w: %s", errUnknownName, name)\<close>;
  \<^item> \<open>FormatError\<close> is \<^verbatim>\<open>fmt.Errorf("%w", err)\<close> for the error of \<^verbatim>\<open>strconv.Unquote\<close>, which is
    always \<^verbatim>\<open>strconv.ErrSyntax\<close>.

  The receiver of \<^verbatim>\<open>parse\<close> is a pointer: the model takes the Level stored there before the
  call and returns the Level stored there afterwards, with the error (\<open>None\<close> for \<^verbatim>\<open>nil\<close>).
\<close>

datatype error =
    ParseError string NumError
  | UnknownNameError string
  | FormatError

definition parse :: "unicode \<Rightarrow> Level \<Rightarrow> string \<Rightarrow> Level \<times> error option" where
  "parse U l s =
     (let i = IndexAny s ''+-'';
          name = (if 0 \<le> i then take (nat i) s else s);
          r = (if 0 \<le> i then Atoi (drop (nat i) s) else Inr 0)
      in case r of
           Inl err \<Rightarrow> (l, Some (ParseError s err))
         | Inr offset \<Rightarrow>
             (let u = ToUpper U name in
              if u = ''TRACE'' then (LevelTrace + offset, None)
              else if u = ''DEBUG'' then (LevelDebug + offset, None)
              else if u = ''INFO'' then (LevelInfo + offset, None)
              else if u = ''WARN'' then (LevelWarn + offset, None)
              else if u = ''ERROR'' then (LevelError + offset, None)
              else (l, Some (UnknownNameError name))))"

definition UnmarshalText :: "unicode \<Rightarrow> Level \<Rightarrow> string \<Rightarrow> Level \<times> error option" where
  "UnmarshalText U l data = parse U l data"

section \<open>The standard library functions of the marshalling functions\<close>

subsection \<open>strconv.AppendQuote\<close>

text \<open>
  \<^verbatim>\<open>strconv.AppendQuote(buf, s)\<close> is \<^verbatim>\<open>appendQuotedWith(buf, s, '"', false, false)\<close>: a
  double-quoted Go string literal. \<^verbatim>\<open>IsPrint\<close> decides the Latin-1 range by itself and
  consults its tables above it.
\<close>

definition IsPrint :: "unicode \<Rightarrow> int \<Rightarrow> bool" where
  "IsPrint U r =
     (if r \<le> 0xFF then
        (if 0x20 \<le> r \<and> r \<le> 0x7E then True
         else if 0xA1 \<le> r \<and> r \<le> 0xFF then r \<noteq> 0xAD
         else False)
      else IsPrint_table U r)"

definition lowerhex :: "int \<Rightarrow> char" where
  \<comment> \<open>\<^verbatim>\<open>lowerhex[i]\<close>, for an index below 16\<close>
  "lowerhex i = ''0123456789abcdef'' ! nat i"

definition hex_digits :: "int \<Rightarrow> nat list \<Rightarrow> string" where
  \<comment> \<open>\<^verbatim>\<open>lowerhex[r>>uint(s)&0xF]\<close> for each shift \<^verbatim>\<open>s\<close>\<close>
  "hex_digits r shifts = map (\<lambda>s. lowerhex (drop_bit s r AND 0xF)) shifts"

definition appendEscapedRune :: "unicode \<Rightarrow> string \<Rightarrow> int \<Rightarrow> char \<Rightarrow> string" where
  "appendEscapedRune U buf r quote =
     (if r = int (byte quote) \<or> r = 0x5C then buf @ [CHR 0x5C, byte_of r]
      else if IsPrint U r then AppendRune buf r
      else if r = 7 then buf @ [CHR 0x5C, CHR ''a'']
      else if r = 8 then buf @ [CHR 0x5C, CHR ''b'']
      else if r = 12 then buf @ [CHR 0x5C, CHR ''f'']
      else if r = 10 then buf @ [CHR 0x5C, CHR ''n'']
      else if r = 13 then buf @ [CHR 0x5C, CHR ''r'']
      else if r = 9 then buf @ [CHR 0x5C, CHR ''t'']
      else if r = 11 then buf @ [CHR 0x5C, CHR ''v'']
      else if r < 0x20 \<or> r = 0x7F then
        buf @ [CHR 0x5C, CHR ''x''] @ hex_digits (r AND 0xFF) [4, 0]
      else if \<not> ValidRune r then buf @ [CHR 0x5C, CHR ''u''] @ hex_digits 0xFFFD [12, 8, 4, 0]
      else if r < 0x10000 then buf @ [CHR 0x5C, CHR ''u''] @ hex_digits r [12, 8, 4, 0]
      else buf @ [CHR 0x5C, CHR ''U''] @ hex_digits r [28, 24, 20, 16, 12, 8, 4, 0])"

function appendQuoted_loop :: "unicode \<Rightarrow> string \<Rightarrow> string \<Rightarrow> char \<Rightarrow> string" where
  "appendQuoted_loop U buf s quote =
     (if s = [] then buf
      else
        (let s0 = byte (s ! 0);
             (r, width) = (if RuneSelf \<le> s0 then DecodeRuneInString s else (int s0, 1))
         in if width = 1 \<and> r = RuneError then
              appendQuoted_loop U
                (buf @ [CHR 0x5C, CHR ''x''] @ hex_digits (int s0) [4, 0]) (drop width s) quote
            else
              appendQuoted_loop U (appendEscapedRune U buf r quote) (drop width s) quote))"
  by pat_completeness auto
termination
  by (relation "measure (\<lambda>(U, buf, s, quote). length s)")
    (auto intro: DecodeRuneInString_shorter split: if_splits)

declare appendQuoted_loop.simps [simp del]

definition AppendQuote :: "unicode \<Rightarrow> string \<Rightarrow> string \<Rightarrow> string" where
  "AppendQuote U buf s = appendQuoted_loop U (buf @ [CHR 0x22]) s (CHR 0x22) @ [CHR 0x22]"

subsection \<open>strconv.Unquote\<close>

text \<open>
  \<^verbatim>\<open>utf8.ValidString\<close>, without its first loop, which only skips blocks of eight ASCII
  bytes.
\<close>

lemma first_size: "first b = SZ sz lo hi \<Longrightarrow> 2 \<le> sz"
  by (simp add: first_def split: if_splits)

function ValidString :: "string \<Rightarrow> bool" where
  "ValidString s =
     (if s = [] then True
      else
        (let si = byte (s ! 0) in
         if si < RuneSelf then ValidString (drop 1 s)
         else
           (case first si of
              AS \<Rightarrow> False
            | XX \<Rightarrow> False
            | SZ sz lo hi \<Rightarrow>
                if length s < sz then False
                else if byte (s ! 1) < lo \<or> hi < byte (s ! 1) then False
                else if sz = 2 then ValidString (drop sz s)
                else if byte (s ! 2) < locb \<or> hicb < byte (s ! 2) then False
                else if sz = 3 then ValidString (drop sz s)
                else if byte (s ! 3) < locb \<or> hicb < byte (s ! 3) then False
                else ValidString (drop sz s))))"
  by pat_completeness auto
termination
  by (relation "measure length") (auto dest: first_size)

declare ValidString.simps [simp del]

text \<open>
  \<^verbatim>\<open>strconv.UnquoteChar(s, quote)\<close> decodes the first character or escape sequence of \<^verbatim>\<open>s\<close>:
  the value, whether it is a multibyte character, and the tail; \<open>None\<close> is the error
  \<^verbatim>\<open>ErrSyntax\<close>. The value of eight hexadecimal digits is a 32-bit \<^verbatim>\<open>rune\<close> in Go; from
  \<open>2 ^ 31\<close> on it is negative there and above \<^verbatim>\<open>MaxRune\<close> here, and not a valid rune in
  both.
\<close>

definition unhex :: "char \<Rightarrow> int option" where
  "unhex b =
     (let c = int (byte b) in
      if 48 \<le> c \<and> c \<le> 57 then Some (c - 48)
      else if 97 \<le> c \<and> c \<le> 102 then Some (c - 97 + 10)
      else if 65 \<le> c \<and> c \<le> 70 then Some (c - 65 + 10)
      else None)"

fun unhex_loop :: "int \<Rightarrow> string \<Rightarrow> int option" where
  "unhex_loop v [] = Some v"
| "unhex_loop v (b # s) =
     (case unhex b of None \<Rightarrow> None | Some x \<Rightarrow> unhex_loop (push_bit 4 v OR x) s)"

fun octal_loop :: "int \<Rightarrow> string \<Rightarrow> int option" where
  "octal_loop v [] = Some v"
| "octal_loop v (b # s) =
     (let x = int (byte b) - 48
      in if x < 0 \<or> 7 < x then None else octal_loop (push_bit 3 v OR x) s)"

definition UnquoteChar :: "string \<Rightarrow> char \<Rightarrow> (int \<times> bool \<times> string) option" where
  "UnquoteChar s quote =
     (if length s = 0 then None
      else
        (let c = s ! 0 in
         if c = quote \<and> (quote = CHR 0x27 \<or> quote = CHR 0x22) then None
         else if RuneSelf \<le> byte c then
           (let (r, sz) = DecodeRuneInString s in Some (r, True, drop sz s))
         else if c \<noteq> CHR 0x5C then Some (int (byte c), False, drop 1 s)
         else if length s \<le> 1 then None
         else
           (let c = s ! 1; s = drop 2 s in
            if c = CHR ''a'' then Some (7, False, s)
            else if c = CHR ''b'' then Some (8, False, s)
            else if c = CHR ''f'' then Some (12, False, s)
            else if c = CHR ''n'' then Some (10, False, s)
            else if c = CHR ''r'' then Some (13, False, s)
            else if c = CHR ''t'' then Some (9, False, s)
            else if c = CHR ''v'' then Some (11, False, s)
            else if c = CHR ''x'' \<or> c = CHR ''u'' \<or> c = CHR ''U'' then
              (let n = (if c = CHR ''x'' then 2 else if c = CHR ''u'' then 4 else 8) in
               if length s < n then None
               else
                 (case unhex_loop 0 (take n s) of
                    None \<Rightarrow> None
                  | Some v \<Rightarrow>
                      if c = CHR ''x'' then Some (v, False, drop n s)
                      else if \<not> ValidRune v then None
                      else Some (v, True, drop n s)))
            else if 48 \<le> byte c \<and> byte c \<le> 55 then
              (if length s < 2 then None
               else
                 (case octal_loop (int (byte c) - 48) (take 2 s) of
                    None \<Rightarrow> None
                  | Some v \<Rightarrow> if 255 < v then None else Some (v, False, drop 2 s)))
            else if c = CHR 0x5C then Some (0x5C, False, s)
            else if c = CHR 0x27 \<or> c = CHR 0x22 then
              (if c \<noteq> quote then None else Some (int (byte c), False, s))
            else None)))"

lemma UnquoteChar_shorter:
  "UnquoteChar s quote = Some (r, m, t) \<Longrightarrow> length t < length s"
  using DecodeRuneInString_width [of s]
  by (auto simp add: UnquoteChar_def Let_def split: if_splits option.splits prod.splits)

text \<open>
  The loop of \<^verbatim>\<open>unquote\<close> over a quoted string with escape sequences: it returns the rest
  of the input, at the terminating quote if there is one, and the bytes decoded so far.
\<close>

function unquote_loop :: "char \<Rightarrow> string \<Rightarrow> string \<Rightarrow> (string \<times> string) option" where
  "unquote_loop quote inp buf =
     (if 0 < length inp \<and> inp ! 0 \<noteq> quote then
        (case UnquoteChar inp quote of
           None \<Rightarrow> None
         | Some (r, multibyte, rem) \<Rightarrow>
             if inp ! 0 = CHR 0x0A then None
             else
               (let buf' = (if r < int RuneSelf \<or> \<not> multibyte then buf @ [byte_of r]
                            else AppendRune buf r)
                in if quote = CHR 0x27 then Some (rem, buf')
                   else unquote_loop quote rem buf'))
      else Some (inp, buf))"
  by pat_completeness auto
termination
  by (relation "measure (\<lambda>(quote, inp, buf). length inp)") (auto dest: UnquoteChar_shorter)

declare unquote_loop.simps [simp del]

fun index_byte :: "string \<Rightarrow> char \<Rightarrow> int" where
  "index_byte [] c = - 1"
| "index_byte (b # s) c =
     (if b = c then 0 else (let i = index_byte s c in if i < 0 then - 1 else i + 1))"

definition contains :: "string \<Rightarrow> char \<Rightarrow> bool" where
  "contains s c \<longleftrightarrow> 0 \<le> index_byte s c"

definition substr :: "string \<Rightarrow> nat \<Rightarrow> nat \<Rightarrow> string" where
  \<comment> \<open>the slice expression \<^verbatim>\<open>s[i:j]\<close>, for \<open>i \<le> j \<le> length s\<close>\<close>
  "substr s i j = take (j - i) (drop i s)"

text \<open>
  \<^verbatim>\<open>unquote(in, true)\<close>: the unquoted string and the rest of the input, or \<open>None\<close> for the
  error \<^verbatim>\<open>ErrSyntax\<close>. It accepts the three forms of a Go literal: a raw string between
  back quotes, a string between double quotes and a character between single quotes.
\<close>

definition unquote :: "string \<Rightarrow> (string \<times> string) option" where
  "unquote inp =
     (if length inp < 2 then None
      else
        (let quote = inp ! 0;
             e = index_byte (drop 1 inp) quote
         in if e < 0 then None
            else
              (let endq = nat e + 2 in
               if quote = CHR 0x60 then
                 (if \<not> contains (substr inp 0 endq) (CHR 0x0D)
                  then Some (substr inp 1 (endq - 1), drop endq inp)
                  else Some (filter (\<lambda>b. b \<noteq> CHR 0x0D) (substr inp 1 (endq - 1)), drop endq inp))
               else if quote = CHR 0x22 \<or> quote = CHR 0x27 then
                 (let plain = (\<not> contains (substr inp 0 endq) (CHR 0x5C)
                                \<and> \<not> contains (substr inp 0 endq) (CHR 0x0A));
                      valid =
                        (if quote = CHR 0x22 then ValidString (substr inp 1 (endq - 1))
                         else
                           (let (r, n) = DecodeRuneInString (substr inp 1 (endq - 1))
                            in 1 + n + 1 = endq \<and> (r \<noteq> RuneError \<or> n \<noteq> 1)))
                  in if plain \<and> valid then Some (substr inp 1 (endq - 1), drop endq inp)
                     else
                       (case unquote_loop quote (drop 1 inp) [] of
                          None \<Rightarrow> None
                        | Some (inp', buf) \<Rightarrow>
                            if \<not> (0 < length inp' \<and> inp' ! 0 = quote) then None
                            else Some (buf, drop 1 inp')))
               else None)))"

definition Unquote :: "string \<Rightarrow> string option" where
  "Unquote s =
     (case unquote s of
        None \<Rightarrow> None
      | Some (out, rem) \<Rightarrow> if 0 < length rem then None else Some out)"

section \<open>The marshalling functions of Level\<close>

text \<open>
  A \<^verbatim>\<open>[]byte\<close> that a function only reads or returns is the list of its elements. The
  argument of \<^verbatim>\<open>AppendText\<close> is a slice with its backing array: \<open>array\<close> holds the array from
  the first element of the slice on, so that its length is the capacity, and \<open>len\<close> is the
  length of the slice. \<^verbatim>\<open>append\<close> writes into the array when the capacity suffices, and
  otherwise allocates an array for the elements and the new bytes, of a capacity that the
  runtime chooses: the parameter \<open>growcap\<close>, applied to the old capacity and to the length
  that is needed.
\<close>

record slice =
  array :: string
  len :: nat

definition elements :: "slice \<Rightarrow> string" where
  "elements b = take (len b) (array b)"

definition nil_slice :: slice where
  "nil_slice = \<lparr>array = [], len = 0\<rparr>"

definition append_bytes :: "(nat \<Rightarrow> nat \<Rightarrow> nat) \<Rightarrow> slice \<Rightarrow> string \<Rightarrow> slice" where
  "append_bytes growcap b xs =
     (let n = len b + length xs in
      if n \<le> length (array b) then
        \<lparr>array = take (len b) (array b) @ xs @ drop n (array b), len = n\<rparr>
      else
        \<lparr>array = take (len b) (array b) @ xs
                   @ replicate (growcap (length (array b)) n - n) (CHR 0x00),
         len = n\<rparr>)"

definition MarshalJSON :: "unicode \<Rightarrow> Level \<Rightarrow> string \<times> error option" where
  "MarshalJSON U l = (AppendQuote U [] (Level_String l), None)"

definition UnmarshalJSON :: "unicode \<Rightarrow> Level \<Rightarrow> string \<Rightarrow> Level \<times> error option" where
  "UnmarshalJSON U l data =
     (case Unquote data of
        None \<Rightarrow> (l, Some FormatError)
      | Some s \<Rightarrow> parse U l s)"

definition AppendText :: "(nat \<Rightarrow> nat \<Rightarrow> nat) \<Rightarrow> Level \<Rightarrow> slice \<Rightarrow> slice \<times> error option" where
  "AppendText growcap l b = (append_bytes growcap b (Level_String l), None)"

definition MarshalText :: "(nat \<Rightarrow> nat \<Rightarrow> nat) \<Rightarrow> Level \<Rightarrow> slice \<times> error option" where
  "MarshalText growcap l = AppendText growcap l nil_slice"

section \<open>The specification's notions\<close>

text \<open>
  The table of anchors of the specification, with the values as mathematical integers, and
  the band of a value: the greatest anchor that is not above it, and TRACE when there is
  none.
\<close>

definition anchor_table :: "(string \<times> int) list" where
  "anchor_table =
     [(''TRACE'', - 8), (''DEBUG'', - 4), (''INFO'', 0), (''WARN'', 4), (''ERROR'', 8)]"

definition band_anchor :: "int \<Rightarrow> string \<times> int" where
  "band_anchor v =
     (case filter (\<lambda>(n, a). a \<le> v) anchor_table of
        [] \<Rightarrow> hd anchor_table
      | x # xs \<Rightarrow> last (x # xs))"

text \<open>The value of a string of decimal digits, and the sign that is written explicitly.\<close>

fun digits_from :: "nat \<Rightarrow> string \<Rightarrow> nat" where
  "digits_from n [] = n"
| "digits_from n (c # cs) = digits_from (n * 10 + (byte c - 48)) cs"

definition digits_value :: "string \<Rightarrow> nat" where
  "digits_value ds = digits_from 0 ds"

definition sign_char :: "int \<Rightarrow> char" where
  "sign_char k = (if k < 0 then CHR ''-'' else CHR ''+'')"

text \<open>
  Tables for closed instances: no rune above ASCII has an upper-case form or is printable.
\<close>

definition ascii_tables :: unicode where
  "ascii_tables = \<lparr>To_UpperCase = (\<lambda>r. r), IsPrint_table = (\<lambda>r. False)\<rparr>"

text \<open>
  The segments of an input of the parser: the name segment is the part before the first
  \<^verbatim>\<open>+\<close> or \<^verbatim>\<open>-\<close>, the offset segment is the rest, from that sign on. A signed decimal integer
  is a sign followed by at least one decimal digit; \<open>int_range\<close> is the range of \<^verbatim>\<open>int\<close>.
\<close>

definition signed_decimal :: "string \<Rightarrow> int option" where
  "signed_decimal s =
     (case s of
        [] \<Rightarrow> None
      | c # ds \<Rightarrow>
          if (c = CHR ''+'' \<or> c = CHR ''-'') \<and> ds \<noteq> [] \<and> list_all is_digit ds
          then Some (if c = CHR ''-'' then - int (digits_value ds) else int (digits_value ds))
          else None)"

definition int_range :: "int \<Rightarrow> bool" where
  "int_range k \<longleftrightarrow> - (2 ^ 63) \<le> k \<and> k < 2 ^ 63"

definition is_sign :: "char \<Rightarrow> bool" where
  "is_sign c \<longleftrightarrow> c = CHR ''+'' \<or> c = CHR ''-''"

definition name_segment :: "string \<Rightarrow> string" where
  "name_segment s = takeWhile (\<lambda>c. \<not> is_sign c) s"

definition offset_segment :: "string \<Rightarrow> string" where
  "offset_segment s = dropWhile (\<lambda>c. \<not> is_sign c) s"

definition anchor_named :: "string \<Rightarrow> Level option" where
  "anchor_named =
     map_of [(''TRACE'', LevelTrace), (''DEBUG'', LevelDebug), (''INFO'', LevelInfo),
             (''WARN'', LevelWarn), (''ERROR'', LevelError)]"

text \<open>
  The value of an offset segment, 0 when the segment is absent, and the bytes that
  \<^verbatim>\<open>strconv.AppendQuote\<close> copies as they are: printable ASCII other than the double quote
  and the backslash.
\<close>

definition plain_byte :: "char \<Rightarrow> bool" where
  "plain_byte c \<longleftrightarrow> 0x20 \<le> byte c \<and> byte c \<le> 0x7E \<and> c \<noteq> CHR 0x22 \<and> c \<noteq> CHR 0x5C"

definition offset_value :: "string \<Rightarrow> int option" where
  "offset_value seg =
     (if seg = [] then Some 0
      else
        (case signed_decimal seg of
           None \<Rightarrow> None
         | Some k \<Rightarrow> if int_range k then Some k else None))"

section \<open>Arithmetic of Level and decimal digits\<close>

lemma sint_diff_exact:
  fixes a b :: "64 word"
  assumes "- (2 ^ 63) \<le> sint a - sint b" "sint a - sint b < 2 ^ 63"
  shows "sint (a - b) = sint a - sint b"
  using assms by (simp add: sint_word_ariths signed_take_bit_int_eq_self word_size)

lemma sint_bounds64: "- (2 ^ 63) \<le> sint (x :: 64 word)" "sint (x :: 64 word) < 2 ^ 63"
  using sint_ge [of x] sint_lt [of x] by simp_all

lemma unat_magnitude:
  fixes x :: "64 word"
  shows "unat (if x <s 0 then - x else x) = nat \<bar>sint x\<bar>"
proof -
  define k where "k = sint x"
  have x: "x = word_of_int k" by (simp add: k_def)
  have b: "- (2 ^ 63) \<le> k" "k < 2 ^ 63"
    using sint_ge [of x] sint_lt [of x] by (simp_all add: k_def)
  show ?thesis
  proof (cases "k < 0")
    case True
    have "uint (- x) = take_bit 64 (- k)"
      by (simp add: x uint_word_of_int_eq flip: of_int_minus)
    also have "\<dots> = - k"
      using True b by (simp add: take_bit_int_eq_self)
    finally have "unat (- x) = nat (- k)"
      by (simp add: unat_eq_nat_uint)
    with True show ?thesis by (simp add: word_sless_alt flip: k_def)
  next
    case False
    have "uint x = take_bit 64 k"
      by (simp add: x uint_word_of_int_eq)
    also have "\<dots> = k"
      using False b by (simp add: take_bit_int_eq_self)
    finally have "unat x = nat k"
      by (simp add: unat_eq_nat_uint)
    with False show ?thesis by (simp add: word_sless_alt flip: k_def)
  qed
qed

lemma byte_digit_char: "d < 10 \<Longrightarrow> byte (digit_char d) = 48 + d"
  by (simp add: digit_char_def)

lemma is_digit_digit_char: "d < 10 \<Longrightarrow> is_digit (digit_char d)"
  by (simp add: is_digit_def byte_digit_char)

lemma digits_from_append:
  "digits_from n (xs @ ys) = digits_from (digits_from n xs) ys"
  by (induction xs arbitrary: n) simp_all

lemma fmt_digits_all_digits: "list_all is_digit (fmt_digits u)"
proof (induction u rule: fmt_digits.induct)
  case (1 u)
  have d: "u - u div 10 * 10 < 10" by arith
  show ?case
  proof (cases "10 \<le> u")
    case True
    with 1 d show ?thesis
      by (subst fmt_digits.simps) (simp add: is_digit_digit_char)
  next
    case False
    then show ?thesis
      by (subst fmt_digits.simps) (simp add: is_digit_digit_char)
  qed
qed

lemma fmt_digits_value: "digits_from 0 (fmt_digits u) = u"
proof (induction u rule: fmt_digits.induct)
  case (1 u)
  have d: "u - u div 10 * 10 < 10" by arith
  show ?case
  proof (cases "10 \<le> u")
    case True
    with 1 have "digits_from 0 (fmt_digits (u div 10)) = u div 10" by simp
    with True d show ?thesis
      by (subst fmt_digits.simps) (simp add: digits_from_append byte_digit_char)
  next
    case False
    then show ?thesis
      by (subst fmt_digits.simps) (simp add: byte_digit_char)
  qed
qed

lemma fmt_digits_nonempty: "fmt_digits u \<noteq> []"
  by (subst fmt_digits.simps) simp

lemma band_anchor_TRACE: "v < - 4 \<Longrightarrow> band_anchor v = (''TRACE'', - 8)"
  by (simp add: band_anchor_def anchor_table_def)

lemma band_anchor_DEBUG: "- 4 \<le> v \<Longrightarrow> v < 0 \<Longrightarrow> band_anchor v = (''DEBUG'', - 4)"
  by (simp add: band_anchor_def anchor_table_def)

lemma band_anchor_INFO: "0 \<le> v \<Longrightarrow> v < 4 \<Longrightarrow> band_anchor v = (''INFO'', 0)"
  by (simp add: band_anchor_def anchor_table_def)

lemma band_anchor_WARN: "4 \<le> v \<Longrightarrow> v < 8 \<Longrightarrow> band_anchor v = (''WARN'', 4)"
  by (simp add: band_anchor_def anchor_table_def)

lemma band_anchor_ERROR: "8 \<le> v \<Longrightarrow> band_anchor v = (''ERROR'', 8)"
  by (simp add: band_anchor_def anchor_table_def)

lemma fmt_plus_d_sint:
  "fmt_plus_d x = sign_char (sint x) # fmt_digits (nat \<bar>sint x\<bar>)"
  using unat_magnitude [of x]
  by (simp add: fmt_plus_d_def sign_char_def Let_def word_sless_alt)

lemma str_sint:
  "str base x =
     (if sint x = 0 then base
      else base @ sign_char (sint x) # fmt_digits (nat \<bar>sint x\<bar>))"
  by (simp add: str_def fmt_plus_d_sint signed_eq_0_iff)

lemma sint_anchors:
  "sint LevelTrace = - 8" "sint LevelDebug = - 4" "sint LevelInfo = 0"
  "sint LevelWarn = 4" "sint LevelError = 8"
  by (simp_all add: LevelTrace_def LevelDebug_def LevelInfo_def LevelWarn_def LevelError_def)

lemma sint_minus_anchor:
  "sint l < - 4 \<Longrightarrow> sint (l - LevelTrace) = sint l + 8"
  "sint l < 0 \<Longrightarrow> sint (l - LevelDebug) = sint l + 4"
  "sint (l - LevelInfo) = sint l"
  "0 \<le> sint l \<Longrightarrow> sint (l - LevelWarn) = sint l - 4"
  "0 \<le> sint l \<Longrightarrow> sint (l - LevelError) = sint l - 8"
  using sint_bounds64 [of l]
  by (simp_all add: sint_diff_exact sint_anchors)

lemma Level_String_band:
  "Level_String l =
     (let v = sint l; (name, a) = band_anchor v; offset = v - a
      in if offset = 0 then name
         else name @ sign_char offset # fmt_digits (nat \<bar>offset\<bar>))"
proof -
  consider "sint l < - 4" | "- 4 \<le> sint l" "sint l < 0" | "0 \<le> sint l" "sint l < 4"
    | "4 \<le> sint l" "sint l < 8" | "8 \<le> sint l"
    by linarith
  then show ?thesis
  proof cases
    case 1
    then show ?thesis
      by (simp add: Level_String_def word_sless_alt sint_anchors str_sint sint_minus_anchor
          Let_def band_anchor_TRACE)
  next
    case 2
    then show ?thesis
      by (simp add: Level_String_def word_sless_alt sint_anchors str_sint sint_minus_anchor
          Let_def band_anchor_DEBUG)
  next
    case 3
    then show ?thesis
      by (simp add: Level_String_def word_sless_alt sint_anchors str_sint sint_minus_anchor
          Let_def band_anchor_INFO)
  next
    case 4
    then show ?thesis
      by (simp add: Level_String_def word_sless_alt sint_anchors str_sint sint_minus_anchor
          Let_def band_anchor_WARN)
  next
    case 5
    then show ?thesis
      by (simp add: Level_String_def word_sless_alt sint_anchors str_sint sint_minus_anchor
          Let_def band_anchor_ERROR)
  qed
qed

lemma band_anchor_greatest:
  "band_anchor v \<in> set anchor_table"
  "v < - 4 \<Longrightarrow> fst (band_anchor v) = ''TRACE''"
  "- 8 \<le> v \<Longrightarrow> snd (band_anchor v) \<le> v"
  "(n', a') \<in> set anchor_table \<Longrightarrow> a' \<le> v \<Longrightarrow> a' \<le> snd (band_anchor v)"
proof -
  consider "v < - 8" | "- 8 \<le> v" "v < - 4" | "- 4 \<le> v" "v < 0" | "0 \<le> v" "v < 4"
    | "4 \<le> v" "v < 8" | "8 \<le> v"
    by linarith
  note c = this
  show "band_anchor v \<in> set anchor_table"
    using c by cases (simp_all add: band_anchor_def anchor_table_def)
  show "v < - 4 \<Longrightarrow> fst (band_anchor v) = ''TRACE''"
    by (simp add: band_anchor_TRACE)
  show "- 8 \<le> v \<Longrightarrow> snd (band_anchor v) \<le> v"
    using c by cases (simp_all add: band_anchor_def anchor_table_def)
  show "(n', a') \<in> set anchor_table \<Longrightarrow> a' \<le> v \<Longrightarrow> a' \<le> snd (band_anchor v)"
    using c by cases (auto simp add: band_anchor_def anchor_table_def)
qed

section \<open>The numeric conversion and the segments of the parser\<close>

lemma byte_minus_wrap:
  fixes x :: nat
  assumes "x < 256"
  shows "(x + 256 - 48) mod 256 = (if 48 \<le> x then x - 48 else x + 208)"
proof (cases "48 \<le> x")
  case True
  then have "(256 :: nat) \<le> x + 256 - 48" by simp
  then have "(x + 256 - 48) mod 256 = (x + 256 - 48 - 256) mod 256"
    by (rule le_mod_geq)
  also have "\<dots> = x - 48"
    using assms True by simp
  finally show ?thesis using True by simp
next
  case False
  then show ?thesis using assms by simp
qed

lemma atoi_loop_Cons:
  "atoi_loop n (c # s) =
     (if is_digit c then atoi_loop (n * 10 + of_nat (byte c - 48)) s else None)"
proof -
  have w: "(byte c + 256 - 48) mod 256 = (if 48 \<le> byte c then byte c - 48 else byte c + 208)"
    by (rule byte_minus_wrap) simp
  show ?thesis
    unfolding atoi_loop.simps Let_def w is_digit_def by auto
qed

lemma wrap_detect:
  fixes a d :: nat
  assumes "a < 2 ^ 64" "d < 10"
  shows "(a + d) mod 2 ^ 64 < a \<longleftrightarrow> 2 ^ 64 \<le> a + d"
proof (cases "a + d < 2 ^ 64")
  case True
  then show ?thesis by simp
next
  case False
  then have ge: "(2 :: nat) ^ 64 \<le> a + d" by simp
  have "(a + d) mod 2 ^ 64 = (a + d - 2 ^ 64) mod 2 ^ 64"
    using ge by (rule le_mod_geq)
  also have "\<dots> = a + d - 2 ^ 64"
    using assms by (intro mod_less) simp
  finally have "(a + d) mod 2 ^ 64 = a + d - 2 ^ 64" .
  then show ?thesis using ge assms by simp
qed

lemma is_digit_value: "is_digit c \<Longrightarrow> byte c - 48 < 10"
  unfolding is_digit_def by arith

lemma digits_from_ge: "m \<le> digits_from m ds"
proof (induction ds arbitrary: m)
  case Nil
  show ?case by simp
next
  case (Cons c ds)
  have "m \<le> m * 10 + (byte c - 48)" by simp
  also have "\<dots> \<le> digits_from (m * 10 + (byte c - 48)) ds" by (rule Cons.IH)
  finally show ?case by simp
qed

lemma digits_from_bound:
  "list_all is_digit ds \<Longrightarrow> digits_from m ds < (m + 1) * 10 ^ length ds"
proof (induction ds arbitrary: m)
  case Nil
  show ?case by simp
next
  case (Cons c ds)
  then have d: "byte c - 48 < 10" and r: "list_all is_digit ds"
    by (simp_all add: is_digit_value)
  have "digits_from (m * 10 + (byte c - 48)) ds < (m * 10 + (byte c - 48) + 1) * 10 ^ length ds"
    using r by (rule Cons.IH)
  also have "\<dots> \<le> ((m + 1) * 10) * 10 ^ length ds"
    using d by (intro mult_right_mono) simp_all
  finally show ?case by (simp add: algebra_simps)
qed

lemma atoi_loop_digits:
  "list_all is_digit ds \<Longrightarrow> atoi_loop (of_nat m) ds = Some (of_nat (digits_from m ds))"
proof (induction ds arbitrary: m)
  case Nil
  show ?case by simp
next
  case (Cons c ds)
  then have c: "is_digit c" and r: "list_all is_digit ds" by simp_all
  have "atoi_loop (of_nat (m * 10 + (byte c - 48))) ds
      = Some (of_nat (digits_from (m * 10 + (byte c - 48)) ds))"
    using r by (rule Cons.IH)
  then show ?case
    using c by (simp add: atoi_loop_Cons del: atoi_loop.simps)
qed

lemma atoi_loop_nondigit:
  "\<not> list_all is_digit ds \<Longrightarrow> atoi_loop n ds = None"
proof (induction ds arbitrary: n)
  case Nil
  then show ?case by simp
next
  case (Cons c ds)
  then show ?case
    by (cases "is_digit c") (simp_all add: atoi_loop_Cons del: atoi_loop.simps)
qed

lemma parseUint_loop_Cons:
  "parseUint_loop n (c # s) =
     (if \<not> is_digit c then Inl ErrSyntax
      else if 2 ^ 64 \<le> unat n * 10 + (byte c - 48) then Inl ErrRange
      else parseUint_loop (of_nat (unat n * 10 + (byte c - 48))) s)"
proof (cases "is_digit c")
  case False
  then show ?thesis by simp
next
  case True
  define d where "d = byte c - 48"
  have d: "d < 10"
    using True by (simp add: d_def is_digit_value)
  have ud: "unat (of_nat d :: 64 word) = d"
    using d by (simp add: unat_of_nat)
  have top: "\<not> maxVal < x" for x :: "64 word"
    by (simp add: maxVal_def not_less)
  show ?thesis
  proof (cases "cutoff10 \<le> n")
    case c: True
    then have "1844674407370955162 \<le> unat n"
      by (simp add: cutoff10_def word_le_nat_alt)
    then have "2 ^ 64 \<le> unat n * 10 + d" by simp
    with True c show ?thesis by (simp add: d_def)
  next
    case c: False
    then have small: "unat n < 1844674407370955162"
      by (simp add: cutoff10_def word_le_nat_alt)
    then have m: "unat (n * 10) = unat n * 10"
      by (simp add: unat_word_ariths)
    have lt: "unat n * 10 < 2 ^ 64" using small by simp
    have "n * 10 + of_nat d < n * 10 \<longleftrightarrow> (unat n * 10 + d) mod 2 ^ 64 < unat n * 10"
      by (simp add: word_less_nat_alt unat_word_ariths(1) m ud)
    also have "\<dots> \<longleftrightarrow> 2 ^ 64 \<le> unat n * 10 + d"
      using lt d by (rule wrap_detect)
    finally have w: "n * 10 + of_nat d < n * 10 \<longleftrightarrow> 2 ^ 64 \<le> unat n * 10 + d" .
    have e: "of_nat (unat n * 10 + d) = n * 10 + (of_nat d :: 64 word)"
      by simp
    show ?thesis
      using True c w top
      by (simp add: Let_def e flip: d_def del: of_nat_add of_nat_mult)
  qed
qed

declare parseUint_loop.simps(2) [simp del]

declare atoi_loop.simps(2) [simp del]

lemma unat_of_nat64: "m < 2 ^ 64 \<Longrightarrow> unat (of_nat m :: 64 word) = m"
  by (simp add: unat_of_nat)

lemma parseUint_loop_digits:
  "list_all is_digit ds \<Longrightarrow> m < 2 ^ 64 \<Longrightarrow> digits_from m ds < 2 ^ 64 \<Longrightarrow>
     parseUint_loop (of_nat m) ds = Inr (of_nat (digits_from m ds))"
proof (induction ds arbitrary: m)
  case Nil
  show ?case by simp
next
  case (Cons c ds)
  define m' where "m' = m * 10 + (byte c - 48)"
  have c: "is_digit c" and r: "list_all is_digit ds"
    using Cons.prems(1) by simp_all
  have v: "digits_from m' ds < 2 ^ 64"
    using Cons.prems(3) by (simp add: m'_def)
  have "m' \<le> digits_from m' ds" by (rule digits_from_ge)
  with v have m': "m' < 2 ^ 64" by simp
  have "parseUint_loop (of_nat m') ds = Inr (of_nat (digits_from m' ds))"
    using r m' v by (rule Cons.IH)
  then show ?case
    using c m' Cons.prems(2)
    by (simp add: parseUint_loop_Cons unat_of_nat64 flip: m'_def del: of_nat_add of_nat_mult)
qed

lemma parseUint_loop_overflow:
  "list_all is_digit ds \<Longrightarrow> m < 2 ^ 64 \<Longrightarrow> 2 ^ 64 \<le> digits_from m ds \<Longrightarrow>
     parseUint_loop (of_nat m) ds = Inl ErrRange"
proof (induction ds arbitrary: m)
  case Nil
  then show ?case by simp
next
  case (Cons c ds)
  define m' where "m' = m * 10 + (byte c - 48)"
  have c: "is_digit c" and r: "list_all is_digit ds"
    using Cons.prems(1) by simp_all
  have v: "2 ^ 64 \<le> digits_from m' ds"
    using Cons.prems(3) by (simp add: m'_def)
  show ?case
  proof (cases "m' < 2 ^ 64")
    case True
    have "parseUint_loop (of_nat m') ds = Inl ErrRange"
      using r True v by (rule Cons.IH)
    then show ?thesis
      using c True Cons.prems(2)
      by (simp add: parseUint_loop_Cons unat_of_nat64 flip: m'_def del: of_nat_add of_nat_mult)
  next
    case False
    then show ?thesis
      using c Cons.prems(2)
      by (simp add: parseUint_loop_Cons unat_of_nat64 flip: m'_def del: of_nat_add of_nat_mult)
  qed
qed

lemma parseUint_loop_nondigit:
  "\<not> list_all is_digit ds \<Longrightarrow> \<exists>e. parseUint_loop n ds = Inl e"
proof (induction ds arbitrary: n)
  case Nil
  then show ?case by simp
next
  case (Cons c ds)
  then show ?case
    by (cases "is_digit c") (simp_all add: parseUint_loop_Cons)
qed

lemma ParseInt_signed:
  assumes sg: "c = CHR ''+'' \<or> c = CHR ''-''"
  shows "signed_decimal (c # ds) = Some k \<Longrightarrow> int_range k \<Longrightarrow> ParseInt (c # ds) = Inr (of_int k)"
    and "signed_decimal (c # ds) = Some k \<Longrightarrow> \<not> int_range k \<Longrightarrow> ParseInt (c # ds) = Inl ErrRange"
    and "signed_decimal (c # ds) = None \<Longrightarrow> \<exists>e. ParseInt (c # ds) = Inl e"
proof -
  have cut: "(9223372036854775808 :: 64 word) \<le> of_nat m \<longleftrightarrow> 2 ^ 63 \<le> m"
    "(9223372036854775808 :: 64 word) < of_nat m \<longleftrightarrow> 2 ^ 63 < m"
    if "m < 2 ^ 64" for m :: nat
    using that by (simp_all add: word_le_nat_alt word_less_nat_alt unat_of_nat64)
  have cutmax: "(9223372036854775808 :: 64 word) \<le> maxVal" "(9223372036854775808 :: 64 word) < maxVal"
    by (simp_all add: maxVal_def word_le_nat_alt word_less_nat_alt unsigned_minus_1_eq_mask
        mask_eq_exp_minus_1)
  {
    assume sd: "signed_decimal (c # ds) = Some k"
    then have ne: "ds \<noteq> []" and dg: "list_all is_digit ds"
      and k: "k = (if c = CHR ''-'' then - int (digits_value ds) else int (digits_value ds))"
      using sg by (auto simp add: signed_decimal_def split: if_splits)
    show "ParseInt (c # ds) = Inr (of_int k)" if "int_range k"
    proof -
      have small: "digits_value ds < 2 ^ 64"
        using that k by (auto simp add: int_range_def split: if_splits)
      have pu: "ParseUint ds = Inr (of_nat (digits_value ds))"
        using parseUint_loop_digits [of ds 0] dg small ne
        by (simp add: ParseUint_def digits_value_def)
      show ?thesis
        using sg that k small
        by (auto simp add: ParseInt_def pu Let_def cut int_range_def)
    qed
    show "ParseInt (c # ds) = Inl ErrRange" if "\<not> int_range k"
    proof (cases "digits_value ds < 2 ^ 64")
      case True
      have pu: "ParseUint ds = Inr (of_nat (digits_value ds))"
        using parseUint_loop_digits [of ds 0] dg True ne
        by (simp add: ParseUint_def digits_value_def)
      show ?thesis
        using sg that k True
        by (auto simp add: ParseInt_def pu Let_def cut int_range_def)
    next
      case False
      have pu: "ParseUint ds = Inl ErrRange"
        using parseUint_loop_overflow [of ds 0] dg False ne
        by (simp add: ParseUint_def digits_value_def)
      show ?thesis
        using sg by (auto simp add: ParseInt_def pu Let_def cutmax)
    qed
  }
  show "\<exists>e. ParseInt (c # ds) = Inl e" if "signed_decimal (c # ds) = None"
  proof (cases "ds = []")
    case True
    then show ?thesis using sg by (auto simp add: ParseInt_def ParseUint_def)
  next
    case False
    with that sg have "\<not> list_all is_digit ds"
      by (auto simp add: signed_decimal_def split: if_splits)
    then obtain e where "parseUint_loop 0 ds = Inl e"
      using parseUint_loop_nondigit by blast
    then have pu: "ParseUint ds = Inl e"
      using False by (simp add: ParseUint_def)
    show ?thesis
      using sg by (cases e) (auto simp add: ParseInt_def pu Let_def cutmax)
  qed
qed

lemma Atoi_signed:
  assumes sg: "c = CHR ''+'' \<or> c = CHR ''-''"
  shows "signed_decimal (c # ds) = Some k \<Longrightarrow> int_range k \<Longrightarrow> Atoi (c # ds) = Inr (of_int k)"
    and "signed_decimal (c # ds) = Some k \<Longrightarrow> \<not> int_range k \<Longrightarrow>
           Atoi (c # ds) = Inl (NumError (c # ds) ErrRange)"
    and "signed_decimal (c # ds) = None \<Longrightarrow> \<exists>e. Atoi (c # ds) = Inl (NumError (c # ds) e)"
proof -
  show "\<exists>e. Atoi (c # ds) = Inl (NumError (c # ds) e)" if n: "signed_decimal (c # ds) = None"
  proof (cases "length (c # ds) < 19")
    case True
    show ?thesis
    proof (cases "ds = []")
      case e: True
      then show ?thesis using sg by (auto simp add: Atoi_def)
    next
      case e: False
      with n sg have "\<not> list_all is_digit ds"
        by (auto simp add: signed_decimal_def split: if_splits)
      then have "atoi_loop 0 ds = None" by (rule atoi_loop_nondigit)
      then show ?thesis using sg True e by (auto simp add: Atoi_def Let_def)
    qed
  next
    case False
    obtain e where "ParseInt (c # ds) = Inl e"
      using ParseInt_signed(3) [OF sg n] by blast
    then show ?thesis using False by (simp add: Atoi_def Let_def)
  qed
  assume sd: "signed_decimal (c # ds) = Some k"
  then have ne: "ds \<noteq> []" and dg: "list_all is_digit ds"
    and k: "k = (if c = CHR ''-'' then - int (digits_value ds) else int (digits_value ds))"
    using sg by (auto simp add: signed_decimal_def split: if_splits)
  have fast: "Atoi (c # ds) = Inr (of_int k) \<and> int_range k" if short: "length (c # ds) < 19"
  proof -
    have "digits_from 0 ds < (0 + 1) * 10 ^ length ds"
      using dg by (rule digits_from_bound)
    also have "\<dots> \<le> 10 ^ 17"
      using short power_increasing [of "length ds" 17 "10 :: nat"] by simp
    finally have b: "digits_value ds < 10 ^ 17"
      by (simp add: digits_value_def)
    then have r: "int_range k"
      using k by (auto simp add: int_range_def)
    have "atoi_loop (of_nat 0) ds = Some (of_nat (digits_from 0 ds))"
      using dg by (rule atoi_loop_digits)
    then have "atoi_loop 0 ds = Some (of_nat (digits_value ds))"
      by (simp add: digits_value_def)
    then have "Atoi (c # ds) = Inr (of_int k)"
      using sg short ne k by (auto simp add: Atoi_def Let_def)
    with r show ?thesis by simp
  qed
  show "Atoi (c # ds) = Inr (of_int k)" if "int_range k"
  proof (cases "length (c # ds) < 19")
    case True
    then show ?thesis using fast by simp
  next
    case False
    then show ?thesis
      using ParseInt_signed(1) [OF sg sd that] by (simp add: Atoi_def Let_def)
  qed
  show "Atoi (c # ds) = Inl (NumError (c # ds) ErrRange)" if "\<not> int_range k"
  proof (cases "length (c # ds) < 19")
    case True
    then show ?thesis using fast that by simp
  next
    case False
    then show ?thesis
      using ParseInt_signed(2) [OF sg sd that] by (simp add: Atoi_def Let_def)
  qed
qed

lemma signed_decimal_fmt_plus_d: "signed_decimal (fmt_plus_d x) = Some (sint x)"
  by (simp add: fmt_plus_d_sint signed_decimal_def sign_char_def fmt_digits_nonempty
      fmt_digits_all_digits digits_value_def fmt_digits_value)

lemma Atoi_fmt_plus_d: "Atoi (fmt_plus_d x) = Inr x"
proof -
  have r: "int_range (sint x)"
    using sint_bounds64 [of x] by (simp add: int_range_def)
  have s: "signed_decimal (sign_char (sint x) # fmt_digits (nat \<bar>sint x\<bar>)) = Some (sint x)"
    using signed_decimal_fmt_plus_d [of x] by (simp add: fmt_plus_d_sint)
  have "Atoi (sign_char (sint x) # fmt_digits (nat \<bar>sint x\<bar>)) = Inr (of_int (sint x))"
    using s r by (rule Atoi_signed(1) [rotated]) (simp add: sign_char_def)
  then show ?thesis by (simp add: fmt_plus_d_sint)
qed

lemma IndexAny_signs:
  "IndexAny s ''+-'' = (if offset_segment s = [] then - 1 else int (length (name_segment s)))"
  by (induction s) (auto simp add: offset_segment_def name_segment_def is_sign_def Let_def)

lemma take_name_segment: "take (length (name_segment s)) s = name_segment s"
  unfolding name_segment_def by (rule takeWhile_eq_take [symmetric])

lemma drop_name_segment: "drop (length (name_segment s)) s = offset_segment s"
  unfolding name_segment_def offset_segment_def by (rule dropWhile_eq_drop [symmetric])

lemma name_segment_whole: "offset_segment s = [] \<Longrightarrow> name_segment s = s"
  by (simp add: offset_segment_def name_segment_def)

lemma parse_segments:
  "parse U l s =
     (case (if offset_segment s = [] then Inr 0 else Atoi (offset_segment s)) of
        Inl err \<Rightarrow> (l, Some (ParseError s err))
      | Inr offset \<Rightarrow>
          (case anchor_named (ToUpper U (name_segment s)) of
             None \<Rightarrow> (l, Some (UnknownNameError (name_segment s)))
           | Some a \<Rightarrow> (a + offset, None)))"
  by (simp add: parse_def IndexAny_signs take_name_segment drop_name_segment
      name_segment_whole anchor_named_def Let_def split: sum.split)

lemma ToUpper_ascii:
  "list_all (\<lambda>c. byte c < 128) s \<Longrightarrow> ToUpper U s = map upper_byte s"
proof -
  have "\<not> list_ex is_lower s \<Longrightarrow> map upper_byte s = s"
    by (induction s) (simp_all add: upper_byte_def)
  then show "list_all (\<lambda>c. byte c < 128) s \<Longrightarrow> ToUpper U s = map upper_byte s"
    by (simp add: ToUpper_def RuneSelf_def Let_def)
qed

lemma fmt_plus_d_Cons: "\<exists>c ds. fmt_plus_d x = c # ds \<and> is_sign c"
  by (simp add: fmt_plus_d_sint sign_char_def is_sign_def)

lemma segments_of_str:
  assumes "list_all (\<lambda>c. \<not> is_sign c) base"
  shows "name_segment (base @ fmt_plus_d x) = base"
    and "offset_segment (base @ fmt_plus_d x) = fmt_plus_d x"
    and "offset_segment base = []"
    and "name_segment base = base"
proof -
  obtain c ds where f: "fmt_plus_d x = c # ds" and c: "is_sign c"
    using fmt_plus_d_Cons by blast
  have b: "\<forall>c\<in>set base. \<not> is_sign c"
    using assms by (simp add: list_all_iff)
  show "name_segment (base @ fmt_plus_d x) = base"
    using b c by (simp add: name_segment_def f)
  show "offset_segment (base @ fmt_plus_d x) = fmt_plus_d x"
    using b c by (simp add: offset_segment_def f)
  show "offset_segment base = []"
    using b by (simp add: offset_segment_def)
  show "name_segment base = base"
    using b by (simp add: name_segment_def)
qed

lemma parse_str:
  assumes "list_all (\<lambda>c. \<not> is_sign c) base"
    and "ToUpper U base = base" and "anchor_named base = Some a"
  shows "parse U l0 (str base x) = (a + x, None)"
proof (cases "x = 0")
  case True
  then show ?thesis
    using assms by (simp add: str_def parse_segments segments_of_str(3,4))
next
  case False
  have "fmt_plus_d x \<noteq> []"
    using fmt_plus_d_Cons [of x] by auto
  then show ?thesis
    using False assms
    by (simp add: str_def parse_segments segments_of_str(1,2) Atoi_fmt_plus_d)
qed

lemma anchor_names:
  "list_all (\<lambda>c. \<not> is_sign c) ''TRACE''" "ToUpper U ''TRACE'' = ''TRACE''"
  "anchor_named ''TRACE'' = Some LevelTrace"
  "list_all (\<lambda>c. \<not> is_sign c) ''DEBUG''" "ToUpper U ''DEBUG'' = ''DEBUG''"
  "anchor_named ''DEBUG'' = Some LevelDebug"
  "list_all (\<lambda>c. \<not> is_sign c) ''INFO''" "ToUpper U ''INFO'' = ''INFO''"
  "anchor_named ''INFO'' = Some LevelInfo"
  "list_all (\<lambda>c. \<not> is_sign c) ''WARN''" "ToUpper U ''WARN'' = ''WARN''"
  "anchor_named ''WARN'' = Some LevelWarn"
  "list_all (\<lambda>c. \<not> is_sign c) ''ERROR''" "ToUpper U ''ERROR'' = ''ERROR''"
  "anchor_named ''ERROR'' = Some LevelError"
  by (simp_all add: is_sign_def anchor_named_def ToUpper_def RuneSelf_def is_lower_def)

lemma parse_str_names:
  "parse U l0 (str ''TRACE'' x) = (LevelTrace + x, None)"
  "parse U l0 (str ''DEBUG'' x) = (LevelDebug + x, None)"
  "parse U l0 (str ''INFO'' x) = (LevelInfo + x, None)"
  "parse U l0 (str ''WARN'' x) = (LevelWarn + x, None)"
  "parse U l0 (str ''ERROR'' x) = (LevelError + x, None)"
  by (rule parse_str; rule anchor_names)+

section \<open>Quoting, and the parser on its segments\<close>

lemma parse_String: "parse U l0 (Level_String l) = (l, None)"
  by (simp add: Level_String_def parse_str_names)

lemma byte_of_byte: "byte_of (int (byte c)) = c"
  by (simp add: byte_of_def of_nat_of_char)

lemma plain_byte_not:
  "plain_byte c \<Longrightarrow> c \<noteq> CHR 0x22" "plain_byte c \<Longrightarrow> c \<noteq> CHR 0x5C"
  "plain_byte c \<Longrightarrow> c \<noteq> CHR 0x0A"
  by (auto simp add: plain_byte_def)

lemma byte_eq_iff:
  "byte c = 34 \<longleftrightarrow> c = CHR 0x22" "byte c = 92 \<longleftrightarrow> c = CHR 0x5C"
proof -
  have "byte c = byte (CHR 0x22) \<longleftrightarrow> c = CHR 0x22"
    and "byte c = byte (CHR 0x5C) \<longleftrightarrow> c = CHR 0x5C"
    by (rule of_char_eq_iff)+
  then show "byte c = 34 \<longleftrightarrow> c = CHR 0x22" "byte c = 92 \<longleftrightarrow> c = CHR 0x5C"
    by simp_all
qed

lemma appendEscapedRune_plain:
  "plain_byte c \<Longrightarrow> appendEscapedRune U buf (int (byte c)) (CHR 0x22) = buf @ [c]"
  by (auto simp add: plain_byte_def appendEscapedRune_def IsPrint_def AppendRune_def byte_of_byte
      byte_eq_iff)

lemma appendQuoted_loop_plain:
  "list_all plain_byte s \<Longrightarrow> appendQuoted_loop U buf s (CHR 0x22) = buf @ s"
proof (induction s arbitrary: buf)
  case Nil
  show ?case by (simp add: appendQuoted_loop.simps)
next
  case (Cons c s)
  then have c: "plain_byte c" and s: "list_all plain_byte s" by simp_all
  have lt: "\<not> RuneSelf \<le> byte c" and ne: "int (byte c) \<noteq> RuneError"
    using c by (simp_all add: plain_byte_def RuneSelf_def RuneError_def)
  have "appendQuoted_loop U buf (c # s) (CHR 0x22)
      = appendQuoted_loop U (appendEscapedRune U buf (int (byte c)) (CHR 0x22)) s (CHR 0x22)"
    using lt ne by (subst appendQuoted_loop.simps) simp
  also have "\<dots> = (buf @ [c]) @ s"
    using s by (simp add: appendEscapedRune_plain [OF c] Cons.IH)
  finally show ?case by simp
qed

lemma AppendQuote_plain:
  "list_all plain_byte s \<Longrightarrow> AppendQuote U buf s = buf @ CHR 0x22 # s @ [CHR 0x22]"
  by (simp add: AppendQuote_def appendQuoted_loop_plain)

lemma index_byte_first:
  "c \<notin> set xs \<Longrightarrow> index_byte (xs @ c # ys) c = int (length xs)"
  by (induction xs) (auto simp add: Let_def)

lemma contains_iff: "contains s c \<longleftrightarrow> c \<in> set s"
proof -
  have "0 \<le> index_byte s c \<longleftrightarrow> c \<in> set s"
    by (induction s) (auto simp add: Let_def)
  then show ?thesis by (simp add: contains_def)
qed

lemma ValidString_ascii: "list_all (\<lambda>c. byte c < 128) s \<Longrightarrow> ValidString s"
proof (induction s)
  case Nil
  show ?case by (simp add: ValidString.simps)
next
  case (Cons c s)
  then show ?case by (subst ValidString.simps) (simp add: RuneSelf_def)
qed

lemma plain_byte_ascii: "list_all plain_byte s \<Longrightarrow> list_all (\<lambda>c. byte c < 128) s"
  by (induction s) (simp_all add: plain_byte_def)

lemma Unquote_plain:
  assumes "list_all plain_byte s"
  shows "Unquote (CHR 0x22 # s @ [CHR 0x22]) = Some s"
proof -
  define inp where "inp = CHR 0x22 # s @ [CHR 0x22]"
  have all: "\<forall>c\<in>set s. plain_byte c"
    using assms by (simp add: list_all_iff)
  have q: "CHR 0x22 \<notin> set s"
    using all plain_byte_not(1) by blast
  have b: "CHR 0x5C \<notin> set s"
    using all plain_byte_not(2) by blast
  have n: "CHR 0x0A \<notin> set s"
    using all plain_byte_not(3) by blast
  have len: "\<not> length inp < 2" and hd: "inp ! 0 = CHR 0x22"
    and tl: "drop 1 inp = s @ [CHR 0x22]"
    by (simp_all add: inp_def)
  have i: "index_byte (s @ [CHR 0x22]) (CHR 0x22) = int (length s)"
    using q by (rule index_byte_first)
  have e: "nat (int (length s)) + 2 = length s + 2" by simp
  have whole: "substr inp 0 (length s + 2) = inp"
    and body: "substr inp 1 (length s + 2 - 1) = s"
    and rest: "drop (length s + 2) inp = []"
    by (simp_all add: substr_def inp_def)
  have nb: "\<not> contains inp (CHR 0x5C)" and nn: "\<not> contains inp (CHR 0x0A)"
    using b n by (simp_all add: contains_iff inp_def)
  have v: "ValidString s"
    using assms by (intro ValidString_ascii plain_byte_ascii)
  have neg: "\<not> int (length s) < 0" by simp
  have "unquote inp = Some (s, [])"
    unfolding unquote_def Let_def hd tl i e whole body rest
    using len nb nn v neg by simp
  then show ?thesis by (simp add: Unquote_def inp_def)
qed

lemma plain_digits: "list_all is_digit ds \<Longrightarrow> list_all plain_byte ds"
  by (induction ds) (auto simp add: is_digit_def plain_byte_def)

lemma plain_fmt_plus_d: "list_all plain_byte (fmt_plus_d x)"
  by (simp add: fmt_plus_d_sint sign_char_def plain_digits fmt_digits_all_digits plain_byte_def)

lemma plain_Level_String: "list_all plain_byte (Level_String l)"
  by (simp add: Level_String_def str_def plain_fmt_plus_d plain_byte_def)

lemma offset_segment_sign:
  "offset_segment s \<noteq> [] \<Longrightarrow> is_sign (hd (offset_segment s))"
  using hd_dropWhile [of "\<lambda>c. \<not> is_sign c" s] by (simp add: offset_segment_def)

lemma parse_by_offset_value:
  "(case offset_value (offset_segment s) of
      None \<Rightarrow> \<exists>e. parse U l s = (l, Some (ParseError s (NumError (offset_segment s) e)))
    | Some k \<Rightarrow>
        parse U l s =
          (case anchor_named (ToUpper U (name_segment s)) of
             None \<Rightarrow> (l, Some (UnknownNameError (name_segment s)))
           | Some a \<Rightarrow> (a + of_int k, None)))"
proof (cases "offset_segment s")
  case Nil
  then show ?thesis
    by (simp add: offset_value_def parse_segments split: option.split)
next
  case (Cons c ds)
  then have "is_sign c"
    using offset_segment_sign [of s] by simp
  then have sg: "c = CHR ''+'' \<or> c = CHR ''-''"
    by (simp add: is_sign_def)
  show ?thesis
  proof (cases "signed_decimal (c # ds)")
    case None
    then obtain e where "Atoi (c # ds) = Inl (NumError (c # ds) e)"
      using Atoi_signed(3) [OF sg] by blast
    then show ?thesis
      using None Cons by (simp add: offset_value_def parse_segments)
  next
    case (Some k)
    show ?thesis
    proof (cases "int_range k")
      case True
      have "Atoi (c # ds) = Inr (of_int k)"
        using sg Some True by (rule Atoi_signed(1))
      then show ?thesis
        using Some True Cons by (simp add: offset_value_def parse_segments split: option.split)
    next
      case False
      have "Atoi (c # ds) = Inl (NumError (c # ds) ErrRange)"
        using sg Some False by (rule Atoi_signed(2))
      then show ?thesis
        using Some False Cons by (simp add: offset_value_def parse_segments)
    qed
  qed
qed

lemma sint_sum_exact:
  fixes a b :: "64 word"
  assumes "- (2 ^ 63) \<le> sint a + sint b" "sint a + sint b < 2 ^ 63"
  shows "sint (a + b) = sint a + sint b"
  using assms by (simp add: sint_word_ariths signed_take_bit_int_eq_self word_size)

lemma sint_of_int_range: "int_range k \<Longrightarrow> sint (of_int k :: 64 word) = k"
  by (simp add: int_range_def signed_of_int signed_take_bit_int_eq_self)

lemma sint_anchor_plus:
  "int_range k \<Longrightarrow> int_range (sint a + k) \<Longrightarrow> sint ((a :: Level) + of_int k) = sint a + k"
  using sint_sum_exact [of a "of_int k"] by (simp add: sint_of_int_range) (simp add: int_range_def)

lemma offset_value_range: "offset_value seg = Some k \<Longrightarrow> int_range k"
  by (auto simp add: offset_value_def int_range_def split: if_splits option.splits)

lemma MarshalJSON_quoted:
  "MarshalJSON U l = (CHR 0x22 # Level_String l @ [CHR 0x22], None)"
  using AppendQuote_plain [OF plain_Level_String, of U "[]" l] by (simp add: MarshalJSON_def)

lemma Unquote_MarshalJSON: "Unquote (fst (MarshalJSON U l)) = Some (Level_String l)"
  by (simp add: MarshalJSON_quoted Unquote_plain plain_Level_String)




lemma append_bytes_frame:
  assumes "len b \<le> length (array b)"
  shows "elements (append_bytes g b xs) = elements b @ xs"
    and "take (len b) (array (append_bytes g b xs)) = elements b"
    and "len (append_bytes g b xs) = len b + length xs"
    and "len (append_bytes g b xs) \<le> length (array (append_bytes g b xs))"
  using assms by (simp_all add: append_bytes_def elements_def Let_def)

section \<open>Round trip of the canonical encoding\<close>

text \<open>
  Claim C1. For every Level \<open>l\<close>, \<^verbatim>\<open>parse\<close> applied to the string of \<open>l\<close> returns no error and
  stores exactly \<open>l\<close>, whatever the destination held before and whatever the case tables are.
  This covers both ends of the range of \<^verbatim>\<open>int\<close>, where the offset has 19 digits and \<^verbatim>\<open>Atoi\<close>
  leaves its fast path.
\<close>

theorem parse_Level_String:
  "parse U l0 (Level_String l) = (l, None)"
  by (simp add: Level_String_def parse_str_names)

text \<open>An instance below the anchor of TRACE.\<close>

theorem parse_Level_String_witness:
  "parse ascii_tables 0 (Level_String (- 10)) = (- 10, None)
   \<and> Level_String (- 10) = ''TRACE-2''"
  using parse_Level_String [of ascii_tables 0 "- 10"] by (intro conjI; code_simp)

section \<open>Encoding\<close>

text \<open>
  Claim C2. For every Level \<open>l\<close>, with \<open>v\<close> its value, \<^verbatim>\<open>String\<close> selects the anchor of
  the band of \<open>v\<close>: an entry of the table, TRACE for every value below the anchor of DEBUG,
  and from \<open>-8\<close> on the greatest anchor that is not above \<open>v\<close>. The offset \<open>v - a\<close> is what the
  code computes by its subtraction, without overflow. The output is the name alone when the
  offset is 0, and otherwise the name followed by the sign and by the decimal digits of the
  magnitude of the offset. In particular \<^verbatim>\<open>LevelWarn - 1\<close> gives \<^verbatim>\<open>INFO+3\<close> and
  \<^verbatim>\<open>LevelDebug - 2\<close> gives \<^verbatim>\<open>TRACE+2\<close>.
\<close>

theorem Level_String_greatest_anchor:
  "(let v = sint l; (name, a) = band_anchor v; offset = v - a;
        ds = fmt_digits (nat \<bar>offset\<bar>)
    in (name, a) \<in> set anchor_table
       \<and> (v < - 4 \<longrightarrow> name = ''TRACE'')
       \<and> (- 8 \<le> v \<longrightarrow> a \<le> v \<and> (\<forall>(n', a') \<in> set anchor_table. a' \<le> v \<longrightarrow> a' \<le> a))
       \<and> sint (l - of_int a) = offset
       \<and> Level_String l = (if offset = 0 then name else name @ sign_char offset # ds)
       \<and> list_all is_digit ds \<and> digits_value ds = nat \<bar>offset\<bar>)
   \<and> Level_String (LevelWarn - 1) = ''INFO+3''
   \<and> Level_String (LevelDebug - 2) = ''TRACE+2''"
proof -
  obtain name a where na: "band_anchor (sint l) = (name, a)"
    by (cases "band_anchor (sint l)")
  have mem: "(name, a) \<in> set anchor_table"
    using band_anchor_greatest(1) [of "sint l"] na by simp
  have trace: "sint l < - 4 \<longrightarrow> name = ''TRACE''"
    using band_anchor_greatest(2) [of "sint l"] na by simp
  have le: "- 8 \<le> sint l \<longrightarrow> a \<le> sint l"
    using band_anchor_greatest(3) [of "sint l"] na by simp
  have greatest: "\<forall>(n', a') \<in> set anchor_table. a' \<le> sint l \<longrightarrow> a' \<le> a"
    using band_anchor_greatest(4) [of _ _ "sint l"] na by auto
  have a_cases: "a = - 8 \<and> sint l < - 4 \<or> a = - 4 \<and> sint l < 0 \<or> a = 0
      \<or> a = 4 \<and> 0 \<le> sint l \<or> a = 8 \<and> 0 \<le> sint l"
  proof -
    consider "sint l < - 4" | "- 4 \<le> sint l" "sint l < 0" | "0 \<le> sint l" "sint l < 4"
      | "4 \<le> sint l" "sint l < 8" | "8 \<le> sint l"
      by linarith
    then show ?thesis
      using na
      by cases (simp_all add: band_anchor_TRACE band_anchor_DEBUG band_anchor_INFO
          band_anchor_WARN band_anchor_ERROR)
  qed
  have off: "sint (l - of_int a) = sint l - a"
    using a_cases sint_minus_anchor [of l]
    by (auto simp add: LevelTrace_def LevelDebug_def LevelInfo_def LevelWarn_def LevelError_def)
  have enc: "Level_String l =
      (if sint l - a = 0 then name
       else name @ sign_char (sint l - a) # fmt_digits (nat \<bar>sint l - a\<bar>))"
    using Level_String_band [of l] na by (simp add: Let_def)
  have ex1: "Level_String (LevelWarn - 1) = ''INFO+3''"
    by code_simp
  have ex2: "Level_String (LevelDebug - 2) = ''TRACE+2''"
    by code_simp
  show ?thesis
    using mem trace le greatest off enc ex1 ex2
    by (simp add: Let_def na fmt_digits_all_digits digits_value_def fmt_digits_value)
qed

text \<open>Instances in the band of INFO and below the anchor of TRACE.\<close>

theorem Level_String_greatest_anchor_witness:
  "band_anchor (sint (3 :: Level)) = (''INFO'', 0)
   \<and> - 8 \<le> sint (3 :: Level) \<and> (0 :: int) \<le> sint (3 :: Level)
   \<and> Level_String 3 = ''INFO+3''
   \<and> band_anchor (sint (- 10 :: Level)) = (''TRACE'', - 8)
   \<and> sint (- 10 :: Level) < - 4
   \<and> Level_String (- 10) = ''TRACE-2''"
proof -
  have b1: "band_anchor 3 = (''INFO'', 0)"
    by (simp add: band_anchor_INFO)
  have b2: "band_anchor (- 10) = (''TRACE'', - 8)"
    by (simp add: band_anchor_TRACE)
  have d1: "fmt_digits 3 = ''3''"
    by code_simp
  have d2: "fmt_digits 2 = ''2''"
    by code_simp
  show ?thesis
    using Level_String_greatest_anchor [of 3] Level_String_greatest_anchor [of "- 10"]
    by (simp add: b1 b2 d1 d2 Let_def sign_char_def)
qed

section \<open>Parsing\<close>

text \<open>
  Claim C3. For every input \<open>s\<close>, \<^verbatim>\<open>parse\<close> splits \<open>s\<close> at the first \<^verbatim>\<open>+\<close> or \<^verbatim>\<open>-\<close>: the name
  segment is the prefix, free of signs, and the offset segment is the rest, which starts
  with that sign when it is not empty. The offset is 0 for an absent segment and otherwise
  the value of the segment as a signed decimal integer in the range of \<^verbatim>\<open>int\<close>; a segment
  with no such value makes \<^verbatim>\<open>parse\<close> fail with the error of the numeric conversion. The name
  segment is compared in upper case, by \<^verbatim>\<open>strings.ToUpper\<close>, with the five names; for a name
  of ASCII bytes that is the name with its letters \<^verbatim>\<open>a\<close> to \<^verbatim>\<open>z\<close> capitalised. On a match
  \<^verbatim>\<open>parse\<close> succeeds with the anchor plus the offset, in the arithmetic of \<^verbatim>\<open>int\<close>, which is
  the integer sum whenever that lies in the range. Hence \<^verbatim>\<open>info\<close>, \<^verbatim>\<open>InFo\<close> and \<^verbatim>\<open>INFO\<close>
  all give the value of INFO.
\<close>

theorem parse_algorithm:
  "s = name_segment s @ offset_segment s
   \<and> (\<forall>c \<in> set (name_segment s). \<not> is_sign c)
   \<and> (offset_segment s \<noteq> [] \<longrightarrow> is_sign (hd (offset_segment s)))
   \<and> (case offset_value (offset_segment s) of
         None \<Rightarrow> \<exists>e. parse U l s = (l, Some (ParseError s (NumError (offset_segment s) e)))
       | Some k \<Rightarrow>
           (case anchor_named (ToUpper U (name_segment s)) of
              None \<Rightarrow> parse U l s = (l, Some (UnknownNameError (name_segment s)))
            | Some a \<Rightarrow>
                parse U l s = (a + of_int k, None)
                \<and> (int_range (sint a + k) \<longrightarrow> sint (a + of_int k) = sint a + k)))
   \<and> (list_all (\<lambda>c. byte c < 128) (name_segment s) \<longrightarrow>
        ToUpper U (name_segment s) = map upper_byte (name_segment s))
   \<and> parse U l ''info'' = (LevelInfo, None)
   \<and> parse U l ''InFo'' = (LevelInfo, None)
   \<and> parse U l ''INFO'' = (LevelInfo, None)"
proof -
  have split: "s = name_segment s @ offset_segment s"
    by (simp add: name_segment_def offset_segment_def)
  have name: "\<forall>c \<in> set (name_segment s). \<not> is_sign c"
    by (auto simp add: name_segment_def dest: set_takeWhileD)
  have sign: "offset_segment s \<noteq> [] \<longrightarrow> is_sign (hd (offset_segment s))"
    by (simp add: offset_segment_sign)
  have main: "case offset_value (offset_segment s) of
         None \<Rightarrow> \<exists>e. parse U l s = (l, Some (ParseError s (NumError (offset_segment s) e)))
       | Some k \<Rightarrow>
           (case anchor_named (ToUpper U (name_segment s)) of
              None \<Rightarrow> parse U l s = (l, Some (UnknownNameError (name_segment s)))
            | Some a \<Rightarrow>
                parse U l s = (a + of_int k, None)
                \<and> (int_range (sint a + k) \<longrightarrow> sint (a + of_int k) = sint a + k))"
    using parse_by_offset_value [where s = s and U = U and l = l]
    by (auto simp add: sint_anchor_plus offset_value_range split: option.splits)
  have upper: "list_all (\<lambda>c. byte c < 128) (name_segment s) \<longrightarrow>
        ToUpper U (name_segment s) = map upper_byte (name_segment s)"
    by (simp add: ToUpper_ascii)
  have ex: "parse U l ''info'' = (LevelInfo, None)" "parse U l ''InFo'' = (LevelInfo, None)"
    "parse U l ''INFO'' = (LevelInfo, None)"
    by code_simp+
  show ?thesis
    using split name sign main upper ex by (intro conjI)
qed

text \<open>Instances with a matching name: a well-formed and a malformed offset segment.\<close>

theorem parse_algorithm_witness:
  "name_segment ''Warn+2'' = ''Warn'' \<and> offset_segment ''Warn+2'' = ''+2''
   \<and> is_sign (hd (offset_segment ''Warn+2''))
   \<and> list_all (\<lambda>c. byte c < 128) (name_segment ''Warn+2'')
   \<and> offset_value ''+2'' = Some 2
   \<and> anchor_named (ToUpper ascii_tables ''Warn'') = Some LevelWarn
   \<and> int_range (sint LevelWarn + 2)
   \<and> parse ascii_tables 0 ''Warn+2'' = (6, None)
   \<and> sint (LevelWarn + 2) = 6
   \<and> offset_value ''+2x'' = None
   \<and> (\<exists>e. parse ascii_tables 0 ''Warn+2x'' = (0, Some (ParseError ''Warn+2x'' (NumError ''+2x'' e))))"
proof -
  have n: "name_segment ''Warn+2'' = ''Warn''" "offset_segment ''Warn+2'' = ''+2''"
    "name_segment ''Warn+2x'' = ''Warn''" "offset_segment ''Warn+2x'' = ''+2x''"
    by code_simp+
  have o: "offset_value ''+2'' = Some 2" "offset_value ''+2x'' = None"
    by code_simp+
  have a: "anchor_named (ToUpper ascii_tables ''Warn'') = Some LevelWarn"
    "anchor_named ''WARN'' = Some LevelWarn"
    by code_simp+
  have u: "upper_byte CHR ''W'' = CHR ''W''" "upper_byte CHR ''a'' = CHR ''A''"
    "upper_byte CHR ''r'' = CHR ''R''" "upper_byte CHR ''n'' = CHR ''N''"
    by code_simp+
  have w: "LevelWarn + 2 = (6 :: Level)" "int_range (sint LevelWarn + 2)" "int_range 6"
    by (simp_all add: LevelWarn_def int_range_def)
  have s: "is_sign CHR ''+''"
    by (simp add: is_sign_def)
  show ?thesis
    using parse_algorithm [of "''Warn+2''" ascii_tables 0]
      parse_algorithm [of "''Warn+2x''" ascii_tables 0]
    by (simp add: n o a u w s)
qed

text \<open>
  Claim C4, as stated: \<^verbatim>\<open>parse("ERROR-18")\<close> yields the value of \<^verbatim>\<open>parse("INFO")\<close>. It does
  not: the first is \<open>8 - 18 = -10\<close>, the second is 0.
\<close>

theorem parse_ERROR_minus_18_counterexample:
  "parse ascii_tables 0 ''ERROR-18'' = (- 10, None)
   \<and> parse ascii_tables 0 ''INFO'' = (0, None)
   \<and> fst (parse ascii_tables 0 ''ERROR-18'') \<noteq> fst (parse ascii_tables 0 ''INFO'')"
  by (intro conjI; code_simp)

text \<open>
  Claim C4, amended. \<^verbatim>\<open>parse("ERROR-18")\<close> succeeds and yields the anchor of ERROR minus 18,
  which is \<open>-10\<close>; it is \<^verbatim>\<open>parse("ERROR-8")\<close> that succeeds with the value of
  \<^verbatim>\<open>parse("INFO")\<close>, the anchor 0 of INFO.
\<close>

theorem parse_offset_normalization:
  "parse U l ''ERROR-18'' = (LevelError - 18, None)
   \<and> sint (LevelError - 18) = - 10
   \<and> parse U l ''ERROR-8'' = (LevelInfo, None)
   \<and> parse U l ''INFO'' = (LevelInfo, None)
   \<and> sint LevelInfo = 0"
  by (intro conjI; code_simp)

text \<open>
  Claim C5. \<^verbatim>\<open>parse("")\<close> and \<^verbatim>\<open>parse("dbg")\<close> fail with the error of an unknown name, which
  carries the name segment; \<^verbatim>\<open>parse("INFO+")\<close>, \<^verbatim>\<open>parse("INFO-")\<close> and \<^verbatim>\<open>parse("ERROR+23x")\<close>
  fail with the syntax error of the numeric conversion of the offset segment. In all five
  cases an error is returned and the destination keeps its value.
\<close>

theorem parse_malformed_inputs:
  "parse U l '''' = (l, Some (UnknownNameError ''''))
   \<and> parse U l ''dbg'' = (l, Some (UnknownNameError ''dbg''))
   \<and> parse U l ''INFO+'' = (l, Some (ParseError ''INFO+'' (NumError ''+'' ErrSyntax)))
   \<and> parse U l ''INFO-'' = (l, Some (ParseError ''INFO-'' (NumError ''-'' ErrSyntax)))
   \<and> parse U l ''ERROR+23x''
       = (l, Some (ParseError ''ERROR+23x'' (NumError ''+23x'' ErrSyntax)))"
  by (intro conjI; code_simp)

text \<open>
  Claim C10, as stated: every input that begins with a sign fails with the error of an
  unknown name. It does not when the input is not a signed decimal integer in the range of
  \<^verbatim>\<open>int\<close>: the offset segment, here the whole input, is converted before the name is
  matched, and \<^verbatim>\<open>+\<close>, \<^verbatim>\<open>-x\<close> and \<^verbatim>\<open>+9223372036854775808\<close> fail with the error of the numeric
  conversion.
\<close>

theorem parse_leading_sign_counterexample:
  "parse ascii_tables 0 ''+'' = (0, Some (ParseError ''+'' (NumError ''+'' ErrSyntax)))
   \<and> parse ascii_tables 0 ''-x'' = (0, Some (ParseError ''-x'' (NumError ''-x'' ErrSyntax)))
   \<and> parse ascii_tables 0 ''+9223372036854775808''
       = (0, Some (ParseError ''+9223372036854775808''
                    (NumError ''+9223372036854775808'' ErrRange)))
   \<and> snd (parse ascii_tables 0 ''+'') \<noteq> Some (UnknownNameError [])
   \<and> snd (parse ascii_tables 0 ''+9223372036854775808'') \<noteq> Some (UnknownNameError [])"
  by (intro conjI; code_simp)

text \<open>
  Claim C10, amended. For every input that begins with \<^verbatim>\<open>+\<close> or \<^verbatim>\<open>-\<close> the name segment is
  empty and \<^verbatim>\<open>parse\<close> fails, leaving the destination as it was, so that no Level is parsed
  from a bare numeric literal. The error is that of an unknown, empty name exactly when the
  input is a signed decimal integer in the range of \<^verbatim>\<open>int\<close>; it is the range error of the
  numeric conversion when the integer is out of range, and an error of the numeric
  conversion when the input is not a signed decimal integer.
\<close>

theorem parse_leading_sign:
  "is_sign c \<longrightarrow>
     name_segment (c # r) = []
     \<and> fst (parse U l (c # r)) = l
     \<and> snd (parse U l (c # r)) \<noteq> None
     \<and> (case signed_decimal (c # r) of
           None \<Rightarrow> \<exists>e. parse U l (c # r) = (l, Some (ParseError (c # r) (NumError (c # r) e)))
         | Some k \<Rightarrow>
             parse U l (c # r) =
               (if int_range k then (l, Some (UnknownNameError []))
                else (l, Some (ParseError (c # r) (NumError (c # r) ErrRange)))))"
proof
  assume c: "is_sign c"
  have n: "name_segment (c # r) = []" and o: "offset_segment (c # r) = c # r"
    using c by (simp_all add: name_segment_def offset_segment_def)
  have sg: "c = CHR ''+'' \<or> c = CHR ''-''"
    using c by (simp add: is_sign_def)
  have u: "anchor_named (ToUpper U []) = None"
    by (simp add: ToUpper_def anchor_named_def)
  have cases: "case signed_decimal (c # r) of
           None \<Rightarrow> \<exists>e. parse U l (c # r) = (l, Some (ParseError (c # r) (NumError (c # r) e)))
         | Some k \<Rightarrow>
             parse U l (c # r) =
               (if int_range k then (l, Some (UnknownNameError []))
                else (l, Some (ParseError (c # r) (NumError (c # r) ErrRange))))"
  proof (cases "signed_decimal (c # r)")
    case None
    then show ?thesis
      using Atoi_signed(3) [OF sg None] by (auto simp add: parse_segments n o)
  next
    case (Some k)
    then show ?thesis
      using Atoi_signed(1) [OF sg Some] Atoi_signed(2) [OF sg Some]
      by (auto simp add: parse_segments n o u)
  qed
  then have "fst (parse U l (c # r)) = l \<and> snd (parse U l (c # r)) \<noteq> None"
    by (auto split: option.splits if_splits)
  with n cases show "name_segment (c # r) = []
     \<and> fst (parse U l (c # r)) = l
     \<and> snd (parse U l (c # r)) \<noteq> None
     \<and> (case signed_decimal (c # r) of
           None \<Rightarrow> \<exists>e. parse U l (c # r) = (l, Some (ParseError (c # r) (NumError (c # r) e)))
         | Some k \<Rightarrow>
             parse U l (c # r) =
               (if int_range k then (l, Some (UnknownNameError []))
                else (l, Some (ParseError (c # r) (NumError (c # r) ErrRange)))))"
    by blast
qed

text \<open>The two inputs of the claim.\<close>

theorem parse_leading_sign_witness:
  "is_sign CHR ''-'' \<and> signed_decimal ''-8'' = Some (- 8) \<and> int_range (- 8)
   \<and> parse ascii_tables 0 ''-8'' = (0, Some (UnknownNameError []))
   \<and> is_sign CHR ''+'' \<and> signed_decimal ''+3'' = Some 3 \<and> int_range 3
   \<and> parse ascii_tables 0 ''+3'' = (0, Some (UnknownNameError []))
   \<and> signed_decimal ''+x'' = None
   \<and> (\<exists>e. parse ascii_tables 0 ''+x'' = (0, Some (ParseError ''+x'' (NumError ''+x'' e))))"
proof -
  have s: "is_sign CHR ''-''" "is_sign CHR ''+''"
    by code_simp+
  have d: "signed_decimal ''-8'' = Some (- 8)" "signed_decimal ''+3'' = Some 3"
    "signed_decimal ''+x'' = None"
    by code_simp+
  have r: "int_range (- 8)" "int_range 3"
    by (simp_all add: int_range_def)
  show ?thesis
    using parse_leading_sign [of "CHR ''-''" "''8''" ascii_tables 0]
      parse_leading_sign [of "CHR ''+''" "''3''" ascii_tables 0]
      parse_leading_sign [of "CHR ''+''" "''x''" ascii_tables 0]
    by (simp add: s d r)
qed

section \<open>Marshalling\<close>

text \<open>
  Claim C6. For every Level \<open>l\<close>, \<^verbatim>\<open>MarshalJSON\<close> returns the string of \<open>l\<close> between two double
  quotes, with no escape sequence, and no error. \<^verbatim>\<open>UnmarshalJSON\<close> is \<^verbatim>\<open>parse\<close> on what
  \<^verbatim>\<open>strconv.Unquote\<close> returns, for every input that it unquotes; on the output of
  \<^verbatim>\<open>MarshalJSON\<close> that is the string of \<open>l\<close>, and the Level stored is \<open>l\<close>.
\<close>

theorem MarshalJSON_UnmarshalJSON:
  "MarshalJSON U l = (CHR 0x22 # Level_String l @ [CHR 0x22], None)
   \<and> Unquote (fst (MarshalJSON U l)) = Some (Level_String l)
   \<and> (\<forall>s. Unquote data = Some s \<longrightarrow> UnmarshalJSON U l0 data = parse U l0 s)
   \<and> UnmarshalJSON U l0 (fst (MarshalJSON U l)) = parse U l0 (Level_String l)
   \<and> UnmarshalJSON U l0 (fst (MarshalJSON U l)) = (l, None)"
  by (simp add: MarshalJSON_quoted Unquote_MarshalJSON [unfolded MarshalJSON_quoted fst_conv]
      UnmarshalJSON_def parse_String)

text \<open>
  Instances: a quoted lower-case name, and a value below the anchor of TRACE and one in
  each of the five bands.
\<close>

theorem MarshalJSON_UnmarshalJSON_witness:
  "Unquote [CHR 0x22, CHR ''w'', CHR ''a'', CHR ''r'', CHR ''n'', CHR 0x22] = Some ''warn''
   \<and> UnmarshalJSON ascii_tables 0 [CHR 0x22, CHR ''w'', CHR ''a'', CHR ''r'', CHR ''n'', CHR 0x22]
       = parse ascii_tables 0 ''warn''
   \<and> MarshalJSON ascii_tables (- 10)
       = ([CHR 0x22, CHR ''T'', CHR ''R'', CHR ''A'', CHR ''C'', CHR ''E'', CHR ''-'', CHR ''2'',
           CHR 0x22], None)
   \<and> UnmarshalJSON ascii_tables 0 (fst (MarshalJSON ascii_tables (- 10))) = (- 10, None)
   \<and> UnmarshalJSON ascii_tables 0 (fst (MarshalJSON ascii_tables (- 7))) = (- 7, None)
   \<and> UnmarshalJSON ascii_tables 0 (fst (MarshalJSON ascii_tables (- 3))) = (- 3, None)
   \<and> UnmarshalJSON ascii_tables 0 (fst (MarshalJSON ascii_tables 1)) = (1, None)
   \<and> UnmarshalJSON ascii_tables 0 (fst (MarshalJSON ascii_tables 5)) = (5, None)
   \<and> UnmarshalJSON ascii_tables 0 (fst (MarshalJSON ascii_tables 9)) = (9, None)"
proof -
  have u: "Unquote [CHR 0x22, CHR ''w'', CHR ''a'', CHR ''r'', CHR ''n'', CHR 0x22] = Some ''warn''"
    by code_simp
  have e: "Level_String (- 10) = ''TRACE-2''"
    by code_simp
  let ?d = "[CHR 0x22, CHR ''w'', CHR ''a'', CHR ''r'', CHR ''n'', CHR 0x22]"
  have "\<forall>s. Unquote ?d = Some s \<longrightarrow> UnmarshalJSON ascii_tables 0 ?d = parse ascii_tables 0 s"
    using MarshalJSON_UnmarshalJSON [of ascii_tables 0 ?d 0] by blast
  then have d: "UnmarshalJSON ascii_tables 0 ?d = parse ascii_tables 0 ''warn''"
    using u by blast
  have "MarshalJSON ascii_tables (- 10) = (CHR 0x22 # Level_String (- 10) @ [CHR 0x22], None)"
    using MarshalJSON_UnmarshalJSON [of ascii_tables "- 10" "[]" 0] by blast
  then have m: "MarshalJSON ascii_tables (- 10)
      = ([CHR 0x22, CHR ''T'', CHR ''R'', CHR ''A'', CHR ''C'', CHR ''E'', CHR ''-'', CHR ''2'',
          CHR 0x22], None)"
    by (simp add: e)
  have r: "UnmarshalJSON ascii_tables 0 (fst (MarshalJSON ascii_tables x)) = (x, None)" for x
    using MarshalJSON_UnmarshalJSON [of ascii_tables x "[]" 0] by blast
  show ?thesis
    using u d m r by (intro conjI)
qed



text \<open>
  Claim C8. For every Level \<open>l\<close> and every slice \<open>b\<close> within its backing array, \<^verbatim>\<open>AppendText\<close>
  returns no error and a slice whose elements are those of \<open>b\<close>, in order, followed by
  exactly the bytes of the string of \<open>l\<close>; the first \<open>len b\<close> bytes of the array of the
  result, which is the array of \<open>b\<close> when the capacity suffices, are the elements of \<open>b\<close>.
  \<^verbatim>\<open>MarshalText\<close> returns exactly the bytes of the string of \<open>l\<close>.
\<close>

theorem AppendText_frame:
  "(len b \<le> length (array b) \<longrightarrow>
      snd (AppendText g l b) = None
      \<and> elements (fst (AppendText g l b)) = elements b @ Level_String l
      \<and> take (len b) (array (fst (AppendText g l b))) = elements b
      \<and> len (fst (AppendText g l b)) = len b + length (Level_String l)
      \<and> len (fst (AppendText g l b)) \<le> length (array (fst (AppendText g l b))))
   \<and> snd (MarshalText g l) = None
   \<and> elements (fst (MarshalText g l)) = Level_String l"
proof -
  have n: "len nil_slice \<le> length (array nil_slice)" "elements nil_slice = []"
    by (simp_all add: nil_slice_def elements_def)
  show ?thesis
    using append_bytes_frame [of b g "Level_String l"]
      append_bytes_frame [OF n(1), of g "Level_String l"]
    by (simp add: AppendText_def MarshalText_def n(2))
qed

text \<open>The buffer of the repository's test: four zero bytes with capacity 16.\<close>

theorem AppendText_frame_witness:
  "len \<lparr>array = replicate 16 (CHR 0x00), len = 4\<rparr>
     \<le> length (array \<lparr>array = replicate 16 (CHR 0x00), len = 4\<rparr>)
   \<and> elements (fst (AppendText (\<lambda>c n. 2 * n) (LevelWarn - 3)
         \<lparr>array = replicate 16 (CHR 0x00), len = 4\<rparr>))
       = [CHR 0x00, CHR 0x00, CHR 0x00, CHR 0x00, CHR ''I'', CHR ''N'', CHR ''F'', CHR ''O'',
          CHR ''+'', CHR ''1'']
   \<and> take 4 (array (fst (AppendText (\<lambda>c n. 2 * n) (LevelWarn - 3)
         \<lparr>array = replicate 16 (CHR 0x00), len = 4\<rparr>)))
       = [CHR 0x00, CHR 0x00, CHR 0x00, CHR 0x00]
   \<and> elements (fst (MarshalText (\<lambda>c n. 2 * n) (LevelWarn - 3))) = ''INFO+1''"
proof -
  let ?b = "\<lparr>array = replicate 16 (CHR 0x00), len = 4\<rparr>"
  have e: "Level_String (LevelWarn - 3) = ''INFO+1''"
    by code_simp
  have b: "elements ?b = [CHR 0x00, CHR 0x00, CHR 0x00, CHR 0x00]"
    by code_simp
  have w: "len ?b \<le> length (array ?b)"
    by simp
  show ?thesis
    using AppendText_frame [of ?b "\<lambda>c n. 2 * n" "LevelWarn - 3"] w
    by (simp add: e b)
qed

text \<open>
  Claim C9. Whenever \<^verbatim>\<open>parse\<close>, \<^verbatim>\<open>UnmarshalText\<close> or \<^verbatim>\<open>UnmarshalJSON\<close> returns an error, the
  destination holds the value it held before the call; and the error that is returned, or
  its absence, depends on the input alone, not on the destination.
\<close>

theorem unmarshal_error_leaves_destination:
  "(snd (parse U l s) \<noteq> None \<longrightarrow> fst (parse U l s) = l)
   \<and> (snd (UnmarshalText U l s) \<noteq> None \<longrightarrow> fst (UnmarshalText U l s) = l)
   \<and> (snd (UnmarshalJSON U l s) \<noteq> None \<longrightarrow> fst (UnmarshalJSON U l s) = l)
   \<and> snd (parse U l s) = snd (parse U l' s)
   \<and> snd (UnmarshalText U l s) = snd (UnmarshalText U l' s)
   \<and> snd (UnmarshalJSON U l s) = snd (UnmarshalJSON U l' s)"
proof -
  have p: "snd (parse U l s) \<noteq> None \<longrightarrow> fst (parse U l s) = l" for l s
    by (simp add: parse_def Let_def split: sum.split)
  have d: "snd (parse U l s) = snd (parse U l' s)" for l l' s
    by (simp add: parse_def Let_def split: sum.split)
  have j: "snd (UnmarshalJSON U l s) \<noteq> None \<longrightarrow> fst (UnmarshalJSON U l s) = l"
    using p by (simp add: UnmarshalJSON_def split: option.split)
  have dj: "snd (UnmarshalJSON U l s) = snd (UnmarshalJSON U l' s)"
    using d by (simp add: UnmarshalJSON_def split: option.split)
  show ?thesis
    using p [of l s] d [of l s l'] j dj by (simp add: UnmarshalText_def)
qed

text \<open>An instance: an unknown name, for each of the three functions.\<close>

theorem unmarshal_error_leaves_destination_witness:
  "snd (parse ascii_tables 7 ''dbg'') \<noteq> None \<and> fst (parse ascii_tables 7 ''dbg'') = 7
   \<and> snd (UnmarshalText ascii_tables 7 ''dbg'') \<noteq> None
   \<and> fst (UnmarshalText ascii_tables 7 ''dbg'') = 7
   \<and> snd (UnmarshalJSON ascii_tables 7 ''dbg'') \<noteq> None
   \<and> fst (UnmarshalJSON ascii_tables 7 ''dbg'') = 7"
proof -
  have e: "snd (parse ascii_tables 7 ''dbg'') \<noteq> None"
    "snd (UnmarshalText ascii_tables 7 ''dbg'') \<noteq> None"
    "snd (UnmarshalJSON ascii_tables 7 ''dbg'') \<noteq> None"
    by code_simp+
  show ?thesis
    using unmarshal_error_leaves_destination [of ascii_tables 7 "''dbg''" 7] e
    by blast
qed

end
